theory Spec2Isabelle
  imports Complex_Main "HOL-Library.Char_ord" "HOL-Library.List_Lexorder"
    "HOL-Library.Multiset" "HOL-Library.Log_Nat"
begin

section \<open>JavaScript strings and numbers\<close>

text \<open>
  A JavaScript string is a sequence of UTF-16 code units. The model is \<^typ>\<open>string\<close>,
  a list of \<^typ>\<open>char\<close>, each \<^typ>\<open>char\<close> read as the code unit of the same number:
  the model covers the strings whose code units are below 256 (ASCII and Latin-1), and
  the functions below are the ECMAScript functions on those strings. The order on
  strings (\<open>Char_ord\<close>, \<open>List_Lexorder\<close>) is the order of the default
  \<^verbatim>\<open>Array.prototype.sort\<close>: lexicographic on code units, a proper prefix first.
\<close>

definition isLineTerminator :: "char \<Rightarrow> bool" where
  \<comment> \<open>LF and CR; U+2028 and U+2029 are beyond the modelled code units.\<close>
  "isLineTerminator c = (c = CHR 0x0A \<or> c = CHR 0x0D)"

definition isWhiteSpace :: "char \<Rightarrow> bool" where
  \<comment> \<open>What \<^verbatim>\<open>String.prototype.trim\<close> strips, below 256: TAB, LF, VT, FF, CR, SP, NBSP.\<close>
  "isWhiteSpace c = ((of_char c :: nat) \<in> {9, 10, 11, 12, 13, 32, 160})"

definition trim :: "string \<Rightarrow> string" where
  "trim s = rev (dropWhile isWhiteSpace (rev (dropWhile isWhiteSpace s)))"

fun split :: "char \<Rightarrow> string \<Rightarrow> string list" where
  \<comment> \<open>\<^verbatim>\<open>s.split(sep)\<close> for a one-character separator; \<^verbatim>\<open>"".split(",")\<close> is \<^verbatim>\<open>[""]\<close>.\<close>
  "split sep [] = [[]]"
| "split sep (c # cs) =
     (if c = sep then [] # split sep cs
      else (case split sep cs of [] \<Rightarrow> [[c]] | x # xs \<Rightarrow> (c # x) # xs))"

fun join :: "string \<Rightarrow> string list \<Rightarrow> string" where
  \<comment> \<open>\<^verbatim>\<open>xs.join(sep)\<close>; the empty array gives the empty string.\<close>
  "join sep [] = []"
| "join sep [x] = x"
| "join sep (x # y # ys) = x @ sep @ join sep (y # ys)"

definition toLowerChar :: "char \<Rightarrow> char" where
  \<comment> \<open>Lower-casing of one code unit below 256: A-Z, and the Latin-1 capitals
      U+00C0-U+00DE without the multiplication sign U+00D7.\<close>
  "toLowerChar c =
     (let n = (of_char c :: nat)
      in if (65 \<le> n \<and> n \<le> 90) \<or> (192 \<le> n \<and> n \<le> 222 \<and> n \<noteq> 215)
         then char_of (n + 32) else c)"

definition toLowerCase :: "string \<Rightarrow> string" where
  "toLowerCase s = map toLowerChar s"

definition truthy :: "string option \<Rightarrow> bool" where
  \<comment> \<open>Truthiness of a \<^verbatim>\<open>string | undefined | null\<close>: absent and \<^verbatim>\<open>""\<close> are falsy.\<close>
  "truthy x = (case x of None \<Rightarrow> False | Some s \<Rightarrow> s \<noteq> [])"

definition orElse :: "string option \<Rightarrow> string \<Rightarrow> string" where
  \<comment> \<open>\<^verbatim>\<open>x || d\<close> for an optional string \<open>x\<close>.\<close>
  "orElse x d = (case x of None \<Rightarrow> d | Some s \<Rightarrow> if s = [] then d else s)"

definition orUndefined :: "string option \<Rightarrow> string option" where
  \<comment> \<open>\<^verbatim>\<open>x || undefined\<close>.\<close>
  "orUndefined x = (if truthy x then x else None)"

definition digitChar :: "nat \<Rightarrow> char" where
  "digitChar d = char_of (48 + d)"

fun numToString :: "nat \<Rightarrow> string" where
  \<comment> \<open>\<^verbatim>\<open>String(n)\<close> of a non-negative integer: its decimal digits.\<close>
  "numToString n =
     (if n < 10 then [digitChar n] else numToString (n div 10) @ [digitChar (n mod 10)])"

declare numToString.simps [simp del]

definition isDigit :: "char \<Rightarrow> bool" where
  "isDigit c = (48 \<le> (of_char c :: nat) \<and> (of_char c :: nat) \<le> 57)"

definition digitsValue :: "string \<Rightarrow> nat" where
  "digitsValue s = foldl (\<lambda>acc c. 10 * acc + ((of_char c :: nat) - 48)) 0 s"

text \<open>
  A JavaScript Number is an IEEE 754 binary64 value. The model keeps NaN and the two
  infinities apart and gives a finite double as the rational it denotes; the two zeros
  are one value, which only a division by zero could tell apart. \<open>fl\<close> rounds a
  rational to the nearest double, a tie to the even significand: doubles of magnitude
  at least \<open>2 powi (- 1022)\<close> have 53 significant bits, the smaller ones are multiples
  of \<open>2 powi (- 1074)\<close>, and a result of magnitude \<open>2 powi 1024\<close> or more is an infinity.
  \<open>binade x\<close> is the exponent \<open>e\<close> with \<open>2 powi e \<le> x < 2 powi (e + 1)\<close>, so that the
  result overflows when its exponent is 1024 or more.
\<close>

datatype jsnum = NaN | PInf | NInf | Fin rat

definition roundHalfEven :: "rat \<Rightarrow> int" where
  "roundHalfEven x =
     (let f = \<lfloor>x\<rfloor>; d = x - of_int f
      in if d < 1 / 2 then f else if 1 / 2 < d then f + 1 else if even f then f else f + 1)"

definition binade :: "rat \<Rightarrow> int" where
  "binade x =
     (let (p, q) = quotient_of x; e0 = bitlen p - bitlen q
      in if 2 powi e0 \<le> x then e0 else e0 - 1)"

definition fl :: "rat \<Rightarrow> jsnum" where
  "fl x =
     (if x = 0 then Fin 0
      else (let a = \<bar>x\<bar>;
                s = max (binade a - 52) (- 1074);
                r = of_int (roundHalfEven (a / 2 powi s)) * 2 powi s
            in if 1024 \<le> binade r then (if 0 < x then PInf else NInf)
               else Fin (if 0 < x then r else - r)))"

fun js_neg :: "jsnum \<Rightarrow> jsnum" where
  "js_neg NaN = NaN"
| "js_neg PInf = NInf"
| "js_neg NInf = PInf"
| "js_neg (Fin a) = Fin (- a)"

fun js_add :: "jsnum \<Rightarrow> jsnum \<Rightarrow> jsnum" where
  \<comment> \<open>\<^verbatim>\<open>x + y\<close> on Numbers\<close>
  "js_add (Fin a) (Fin b) = fl (a + b)"
| "js_add NaN y = NaN"
| "js_add x NaN = NaN"
| "js_add PInf NInf = NaN"
| "js_add NInf PInf = NaN"
| "js_add PInf y = PInf"
| "js_add NInf y = NInf"
| "js_add (Fin a) y = y"

definition js_sub :: "jsnum \<Rightarrow> jsnum \<Rightarrow> jsnum" where
  \<comment> \<open>\<^verbatim>\<open>x - y\<close>\<close>
  "js_sub x y = js_add x (js_neg y)"

definition js_sign :: "jsnum \<Rightarrow> int" where
  \<comment> \<open>The sign of a Number that is not NaN: -1, 0 or 1.\<close>
  "js_sign x =
     (case x of
        NaN \<Rightarrow> 0 | PInf \<Rightarrow> 1 | NInf \<Rightarrow> - 1
      | Fin a \<Rightarrow> if 0 < a then 1 else if a < 0 then - 1 else 0)"

definition js_inf :: "int \<Rightarrow> jsnum" where
  "js_inf sg = (if 0 < sg then PInf else NInf)"

fun js_mul :: "jsnum \<Rightarrow> jsnum \<Rightarrow> jsnum" where
  \<comment> \<open>\<^verbatim>\<open>x * y\<close>: an infinity times zero is NaN.\<close>
  "js_mul (Fin a) (Fin b) = fl (a * b)"
| "js_mul NaN y = NaN"
| "js_mul x NaN = NaN"
| "js_mul x y = (if js_sign x * js_sign y = 0 then NaN else js_inf (js_sign x * js_sign y))"

fun js_div :: "jsnum \<Rightarrow> jsnum \<Rightarrow> jsnum" where
  \<comment> \<open>\<^verbatim>\<open>x / y\<close>: an infinity over an infinity and zero over zero are NaN, a finite
      number over an infinity is zero, and a non-zero number over zero is an infinity
      (of the sign of the dividend here, the zero being read as +0; no division of the
      program has a zero divisor).\<close>
  "js_div NaN y = NaN"
| "js_div x NaN = NaN"
| "js_div (Fin a) (Fin b) =
     (if b = 0 then (if a = 0 then NaN else js_inf (js_sign (Fin a))) else fl (a / b))"
| "js_div (Fin a) y = Fin 0"
| "js_div x (Fin b) = js_inf (js_sign x * (if b < 0 then - 1 else 1))"
| "js_div x y = NaN"

definition isNaN :: "jsnum \<Rightarrow> bool" where
  \<comment> \<open>\<^verbatim>\<open>isNaN(x)\<close> for a Number\<close>
  "isNaN x = (x = NaN)"

definition js_gt0 :: "jsnum \<Rightarrow> bool" where
  \<comment> \<open>\<^verbatim>\<open>x > 0\<close>, false for NaN\<close>
  "js_gt0 x = (case x of NaN \<Rightarrow> False | PInf \<Rightarrow> True | NInf \<Rightarrow> False | Fin a \<Rightarrow> 0 < a)"

definition Math_round :: "jsnum \<Rightarrow> jsnum" where
  \<comment> \<open>\<^verbatim>\<open>Math.round\<close>: the nearest integer, a half rounds up; the result is exact, an
      integer below \<open>2 ^ 53\<close> in magnitude or the argument itself. NaN and the infinities
      are returned as they are.\<close>
  "Math_round x = (case x of Fin a \<Rightarrow> Fin (of_int \<lfloor>a + 1 / 2\<rfloor>) | _ \<Rightarrow> x)"

definition ofLength :: "nat \<Rightarrow> jsnum" where
  \<comment> \<open>An array length or a counter of array elements as a Number: an integer below
      \<open>2 ^ 32\<close>, which is a double.\<close>
  "ofLength n = Fin (of_nat n)"

text \<open>
  \<^verbatim>\<open>Number(s)\<close> of a string (StringToNumber): white space is stripped; the empty
  string is 0; a literal with the prefix \<^verbatim>\<open>0x\<close>, \<^verbatim>\<open>0o\<close> or \<^verbatim>\<open>0b\<close> (either case) and at
  least one digit is read in its radix; otherwise an optional sign is followed by
  \<^verbatim>\<open>Infinity\<close> or by decimal digits with an optional fraction and an optional exponent,
  one digit at least before or after the point. Every other string is NaN. The value
  is rounded to the nearest double.
\<close>

definition radixDigit :: "char \<Rightarrow> nat option" where
  "radixDigit c =
     (let n = (of_char c :: nat)
      in if 48 \<le> n \<and> n \<le> 57 then Some (n - 48)
         else if 97 \<le> n \<and> n \<le> 102 then Some (n - 87)
         else if 65 \<le> n \<and> n \<le> 70 then Some (n - 55)
         else None)"

fun radixValue :: "nat \<Rightarrow> nat \<Rightarrow> string \<Rightarrow> nat option" where
  \<comment> \<open>The value of a run of digits of the radix after the digits of value \<open>acc\<close>.\<close>
  "radixValue radix acc [] = Some acc"
| "radixValue radix acc (c # cs) =
     (case radixDigit c of
        None \<Rightarrow> None
      | Some d \<Rightarrow> if d < radix then radixValue radix (radix * acc + d) cs else None)"

definition nonDecimalLiteral :: "string \<Rightarrow> nat option" where
  "nonDecimalLiteral t =
     (case t of
        c0 # c1 # ds \<Rightarrow>
          if c0 \<noteq> CHR ''0'' \<or> ds = [] then None
          else if c1 = CHR ''x'' \<or> c1 = CHR ''X'' then radixValue 16 0 ds
          else if c1 = CHR ''o'' \<or> c1 = CHR ''O'' then radixValue 8 0 ds
          else if c1 = CHR ''b'' \<or> c1 = CHR ''B'' then radixValue 2 0 ds
          else None
      | _ \<Rightarrow> None)"

definition exponentPart :: "string \<Rightarrow> int option" where
  \<comment> \<open>What follows the mantissa: nothing, or \<^verbatim>\<open>e\<close> or \<^verbatim>\<open>E\<close>, an optional sign and digits.\<close>
  "exponentPart r =
     (case r of
        [] \<Rightarrow> Some 0
      | c # ds \<Rightarrow>
          if c = CHR ''e'' \<or> c = CHR ''E''
          then (case ds of
                  [] \<Rightarrow> None
                | s # es \<Rightarrow>
                    if s = CHR ''+'' \<or> s = CHR ''-''
                    then (if es \<noteq> [] \<and> list_all isDigit es
                          then Some ((if s = CHR ''-'' then - 1 else 1) * int (digitsValue es))
                          else None)
                    else (if list_all isDigit ds then Some (int (digitsValue ds)) else None))
          else None)"

definition unsignedDecimal :: "string \<Rightarrow> jsnum" where
  "unsignedDecimal t =
     (if t = ''Infinity'' then PInf
      else (let ip = takeWhile isDigit t;
                r1 = dropWhile isDigit t;
                fp = (case r1 of
                        [] \<Rightarrow> []
                      | c # r \<Rightarrow> if c = CHR ''.'' then takeWhile isDigit r else []);
                r2 = (case r1 of
                        [] \<Rightarrow> []
                      | c # r \<Rightarrow> if c = CHR ''.'' then dropWhile isDigit r else r1)
            in if ip = [] \<and> fp = [] then NaN
               else (case exponentPart r2 of
                       None \<Rightarrow> NaN
                     | Some ex \<Rightarrow>
                         fl ((of_nat (digitsValue ip)
                              + of_nat (digitsValue fp) / 10 ^ length fp) * 10 powi ex))))"

definition strDecimal :: "string \<Rightarrow> jsnum" where
  "strDecimal t =
     (case t of
        [] \<Rightarrow> NaN
      | c # r \<Rightarrow>
          if c = CHR ''+'' then unsignedDecimal r
          else if c = CHR ''-'' then js_neg (unsignedDecimal r)
          else unsignedDecimal t)"

definition Number :: "string \<Rightarrow> jsnum" where
  "Number s =
     (let t = trim s
      in if t = [] then Fin 0
         else (case nonDecimalLiteral t of
                 Some n \<Rightarrow> fl (of_nat n)
               | None \<Rightarrow> strDecimal t))"

text \<open>
  An object created by an object literal inherits from \<^verbatim>\<open>Object.prototype\<close>. A
  \<^verbatim>\<open>Record<string, T>\<close> is modelled as the map of its own properties; reading
  \<^verbatim>\<open>obj[key]\<close> finds an own property, or else the member of \<^verbatim>\<open>Object.prototype\<close> of
  that name, a function (for \<^verbatim>\<open>__proto__\<close> the prototype object itself), or else
  \<^verbatim>\<open>undefined\<close>. The assignment \<^verbatim>\<open>obj[key] = v\<close> creates or replaces an own property,
  except for the key \<^verbatim>\<open>__proto__\<close>, whose inherited setter replaces the prototype of
  the object by the object \<open>v\<close> and adds no own property. The objects that the
  functions below read are taken to inherit from \<^verbatim>\<open>Object.prototype\<close>, as every object
  does that is built by a literal or read back from the store.
\<close>

definition objectPrototypeKeys :: "string list" where
  "objectPrototypeKeys =
     [''constructor'', ''__defineGetter__'', ''__defineSetter__'', ''hasOwnProperty'',
      ''__lookupGetter__'', ''__lookupSetter__'', ''isPrototypeOf'',
      ''propertyIsEnumerable'', ''toString'', ''valueOf'', ''__proto__'',
      ''toLocaleString'']"

datatype 'a js_lookup = Own 'a | Inherited | Undefined

definition getProp :: "(string \<rightharpoonup> 'a) \<Rightarrow> string \<Rightarrow> 'a js_lookup" where
  \<comment> \<open>\<^verbatim>\<open>obj[key]\<close>\<close>
  "getProp obj key =
     (case obj key of
        Some v \<Rightarrow> Own v
      | None \<Rightarrow> if key \<in> set objectPrototypeKeys then Inherited else Undefined)"

definition setProp :: "(string \<rightharpoonup> 'a) \<Rightarrow> string \<Rightarrow> 'a \<Rightarrow> (string \<rightharpoonup> 'a)" where
  \<comment> \<open>The own properties after \<^verbatim>\<open>obj[key] = v\<close>, for an object \<open>v\<close>.\<close>
  "setProp obj key v =
     (if key = ''__proto__'' \<and> obj key = None then obj else obj(key \<mapsto> v))"

definition safeId :: "string \<Rightarrow> bool" where
  \<comment> \<open>An identifier that names no member of \<^verbatim>\<open>Object.prototype\<close>.\<close>
  "safeId key = (key \<notin> set objectPrototypeKeys)"

section \<open>Data model (types.ts)\<close>

datatype AssignmentType = READING | LISTENING | WRITING | SPEAKING

datatype QuestionType =
    QT_MCQ | QT_ESSAY | QT_SPEAKING | QT_WRITING_GENERAL | QT_WRITING_TASK_1
  | QT_WRITING_TASK_2 | QT_FILL_IN_BLANKS | QT_NOTES_COMPLETION | QT_TRUE_FALSE_NG
  | QT_YES_NO_NG | QT_MATCHING_HEADINGS | QT_MATCHING_FEATURES | QT_MATCHING_INFORMATION
  | QT_MATCHING_SENTENCE_ENDINGS

datatype GroupType =
    GT_MCQ | GT_FILL_IN_BLANKS | GT_NOTES_COMPLETION | GT_TRUE_FALSE_NG | GT_YES_NO_NG
  | GT_MATCHING_HEADINGS | GT_MATCHING_FEATURES | GT_MATCHING_INFORMATION
  | GT_MATCHING_SENTENCE_ENDINGS | GT_MIXED

datatype WritingTaskType = TASK_1 | TASK_2

datatype SubmissionStatus = SUBMITTED | GRADED

text \<open>
  Optional fields (\<^verbatim>\<open>f?: T\<close>) are \<open>T option\<close>. The fields \<^verbatim>\<open>attachmentUrl\<close> and
  \<^verbatim>\<open>minWordCount\<close> of a question, and \<^verbatim>\<open>sections\<close> and \<^verbatim>\<open>content\<close> of an assignment, are
  read and written by none of the functions below and are left out.
\<close>

record Question =
  q_id :: string
  q_text :: string
  q_type :: QuestionType
  q_options :: "string list option"
  q_correctAnswer :: "string option"
  q_maxSelection :: "int option"

record QuestionGroup =
  g_id :: string
  g_type :: GroupType
  g_title :: "string option"
  g_instruction :: string
  g_content :: "string option"
  g_headingList :: "string list option"
  g_matchOptions :: "string list option"
  g_questions :: "Question list"

text \<open>
  \<open>a_type\<close> is required by the interface; it is optional here because
  \<^verbatim>\<open>handleSaveAssignment\<close> copies the draft's type through a non-null assertion.
\<close>

record Assignment =
  a_id :: string
  a_classId :: string
  a_groupId :: "string option"
  a_title :: string
  a_type :: "AssignmentType option"
  a_description :: string
  a_dueDate :: string
  a_timeLimit :: "int option"
  a_passageContent :: "string option"
  a_questionGroups :: "QuestionGroup list option"
  a_videoUrl :: "string option"
  a_writingTaskType :: "WritingTaskType option"
  a_writingPrompt :: "string option"
  a_writingImage :: "string option"
  a_questions :: "Question list option"

text \<open>\<^verbatim>\<open>Partial<Assignment>\<close>, the authoring draft \<^verbatim>\<open>newAssignment\<close>.\<close>

record AssignmentDraft =
  d_id :: "string option"
  d_classId :: "string option"
  d_groupId :: "string option"
  d_title :: "string option"
  d_type :: "AssignmentType option"
  d_description :: "string option"
  d_dueDate :: "string option"
  d_timeLimit :: "int option"
  d_passageContent :: "string option"
  d_questionGroups :: "QuestionGroup list option"
  d_videoUrl :: "string option"
  d_writingTaskType :: "WritingTaskType option"
  d_writingPrompt :: "string option"
  d_writingImage :: "string option"
  d_questions :: "Question list option"

record QuestionResult =
  r_questionId :: string
  r_isCorrect :: bool
  r_studentAnswer :: string
  r_correctAnswer :: string

type_synonym SubmissionReport = "string \<rightharpoonup> QuestionResult"

record SubmissionMetadata =
  m_tabSwitches :: nat
  m_pasteAttempts :: nat

record Submission =
  s_id :: string
  s_assignmentId :: string
  s_studentId :: string
  s_studentName :: string
  s_answers :: "string \<rightharpoonup> string"
  s_status :: SubmissionStatus
  s_grade :: "string option"
  s_feedback :: "string option"
  s_transcription :: "string option"
  s_report :: "SubmissionReport option"
  s_metadata :: "SubmissionMetadata option"

record User =
  u_id :: string
  u_name :: string
  u_accessCode :: "string option"
  u_enrolledClassIds :: "string list option"

section \<open>Authoring (TeacherPortal.tsx)\<close>

definition QUESTION_TYPE_INSTRUCTIONS :: "GroupType \<Rightarrow> string option" where
  "QUESTION_TYPE_INSTRUCTIONS t =
     (case t of
        GT_MCQ \<Rightarrow> Some ''Choose the correct letter, A, B, C or D.''
      | GT_FILL_IN_BLANKS \<Rightarrow>
          Some ''Complete the sentences below. Write NO MORE THAN TWO WORDS for each answer.''
      | GT_NOTES_COMPLETION \<Rightarrow>
          Some ''Complete the notes below. Write ONE WORD AND/OR A NUMBER from the passage for each answer.''
      | GT_TRUE_FALSE_NG \<Rightarrow>
          Some ''Do the following statements agree with the information given in the Reading Passage? Write TRUE, FALSE or NOT GIVEN.''
      | GT_YES_NO_NG \<Rightarrow>
          Some ''Do the following statements agree with the views of the writer in the Reading Passage? Write YES, NO or NOT GIVEN.''
      | GT_MATCHING_HEADINGS \<Rightarrow>
          Some ''Choose the correct heading for each paragraph from the list of headings below.''
      | GT_MATCHING_FEATURES \<Rightarrow>
          Some ''Look at the following items and the list of options below. Match each item with the correct option.''
      | GT_MATCHING_INFORMATION \<Rightarrow>
          Some ''Which paragraph contains the following information? NB You may use any letter more than once.''
      | GT_MATCHING_SENTENCE_ENDINGS \<Rightarrow>
          Some ''Complete each sentence with the correct ending, A-G, below.''
      | GT_MIXED \<Rightarrow> None)"

definition toLetter :: "nat \<Rightarrow> string" where
  \<comment> \<open>\<^verbatim>\<open>String.fromCharCode(65 + num)\<close>, for code units below 256.\<close>
  "toLetter num = [char_of (65 + num)]"

subsection \<open>toggleMcqCorrectAnswer\<close>

text \<open>
  The state \<^verbatim>\<open>tempCorrectAnswer\<close> is a \<^verbatim>\<open>string | null\<close>; the function returns the value
  handed to \<^verbatim>\<open>setTempCorrectAnswer\<close>.
\<close>

definition toggleMcqCorrectAnswer :: "string option \<Rightarrow> string \<Rightarrow> string option" where
  "toggleMcqCorrectAnswer tempCorrectAnswer letter =
     (let current = (case tempCorrectAnswer of
                       None \<Rightarrow> []
                     | Some s \<Rightarrow> if s = [] then [] else split CHR '','' s)
      in if letter \<in> set current
         then (let next = filter (\<lambda>l. l \<noteq> letter) current
               in if next \<noteq> [] then Some (join '','' (sort next)) else None)
         else Some (join '','' (sort (current @ [letter]))))"

text \<open>
  The option letters of the builder are \<^verbatim>\<open>toLetter(idx)\<close>: one code unit from \<^verbatim>\<open>A\<close> on. A
  valid multi-select encoding is \<^verbatim>\<open>null\<close>, or letters in strictly ascending order joined
  by commas.
\<close>

definition isLetter :: "string \<Rightarrow> bool" where
  "isLetter l = (case l of [c] \<Rightarrow> (65::nat) \<le> of_char c | _ \<Rightarrow> False)"

definition validSelection :: "string option \<Rightarrow> bool" where
  "validSelection st =
     (case st of
        None \<Rightarrow> True
      | Some s \<Rightarrow> (let xs = split CHR '','' s
                  in sorted xs \<and> distinct xs \<and> list_all isLetter xs))"

subsection \<open>The notes-completion compiler\<close>

text \<open>
  \<^verbatim>\<open>content.matchAll(/\[(.*?)\]/g)\<close>. After an opening bracket, the lazy group takes
  characters one at a time, trying the closing bracket first at each position, and a dot
  matches no line terminator: \<open>matchBracketBody\<close> returns the captured group and the
  text after the closing bracket, or \<open>None\<close> when the attempt at this opening bracket
  fails. \<open>matchAllBrackets\<close> scans from the left for the next position where the
  pattern matches, and resumes after each match; a match is the pair of \<^verbatim>\<open>m[0]\<close> and
  \<^verbatim>\<open>m[1]\<close>.
\<close>

fun matchBracketBody :: "string \<Rightarrow> (string \<times> string) option" where
  "matchBracketBody [] = None"
| "matchBracketBody (c # cs) =
     (if c = CHR '']'' then Some ([], cs)
      else if isLineTerminator c then None
      else (case matchBracketBody cs of
              None \<Rightarrow> None
            | Some (inner, rest) \<Rightarrow> Some (c # inner, rest)))"

function matchAllBrackets :: "string \<Rightarrow> (string \<times> string) list" where
  "matchAllBrackets [] = []"
| "matchAllBrackets (c # cs) =
     (if c = CHR ''[''
      then (case matchBracketBody cs of
              None \<Rightarrow> matchAllBrackets cs
            | Some (inner, rest) \<Rightarrow> (''['' @ inner @ '']'', inner) # matchAllBrackets rest)
      else matchAllBrackets cs)"
  by pat_completeness auto
termination
proof (relation "measure length")
  have shorter: "length rest < Suc (length cs)"
    if "matchBracketBody cs = Some (inner, rest)" for cs inner rest
    using that
    by (induction cs arbitrary: inner) (auto split: if_splits option.splits)
  show "wf (measure length)" by simp
  show "(cs, c # cs) \<in> measure length" for c :: char and cs by simp
  show "(rest, c # cs) \<in> measure length"
    if "matchBracketBody cs = Some x2" "(inner, rest) = x2" for c cs x2 inner rest
    using shorter[of cs inner rest] that by simp
  show "(cs, c # cs) \<in> measure length" for c :: char and cs by simp
qed

text \<open>
  The body shared by \<^verbatim>\<open>handleSaveAssignment\<close> and \<^verbatim>\<open>getPreviewAssignment\<close>: one question
  per match. The two sites differ in the identifier of the \<open>i\<close>-th question only, the
  argument \<open>mkId\<close>.
\<close>

definition compileNotes :: "(nat \<Rightarrow> string) \<Rightarrow> string \<Rightarrow> Question list" where
  "compileNotes mkId content =
     map (\<lambda>(i, m). \<lparr>q_id = mkId i, q_text = fst m, q_type = QT_NOTES_COMPLETION,
                     q_options = None, q_correctAnswer = Some (snd m),
                     q_maxSelection = None\<rparr>)
         (enumerate 0 (matchAllBrackets content))"

text \<open>
  The tokens of a content in the words of the specification. A bracketed token is an
  opening bracket, an inner text without closing bracket and line terminator, and a
  closing bracket. \<open>bracketTokens content ts\<close> reads the content from the left: where a
  token starts it is taken and reading resumes after it, elsewhere one character is
  skipped; \<open>ts\<close> lists the inner texts in document order. \<open>answerKey\<close> is what two
  compilations have to agree on: identifiers are fresh at each one.
\<close>

definition isInner :: "string \<Rightarrow> bool" where
  "isInner t = list_all (\<lambda>c. c \<noteq> CHR '']'' \<and> \<not> isLineTerminator c) t"

definition startsToken :: "string \<Rightarrow> bool" where
  "startsToken s = (\<exists>inner rest. isInner inner \<and> s = ''['' @ inner @ '']'' @ rest)"

inductive bracketTokens :: "string \<Rightarrow> string list \<Rightarrow> bool" where
  bt_end: "bracketTokens [] []"
| bt_token: "isInner inner \<Longrightarrow> bracketTokens rest ts \<Longrightarrow>
     bracketTokens (''['' @ inner @ '']'' @ rest) (inner # ts)"
| bt_skip: "\<not> startsToken (c # cs) \<Longrightarrow> bracketTokens cs ts \<Longrightarrow> bracketTokens (c # cs) ts"

definition answerKey :: "Question \<Rightarrow> string \<times> QuestionType \<times> string option" where
  "answerKey q = (q_text q, q_type q, q_correctAnswer q)"

definition previewGroup :: "QuestionGroup \<Rightarrow> QuestionGroup" where
  "previewGroup grp =
     (case g_content grp of
        Some content \<Rightarrow>
          if g_type grp = GT_NOTES_COMPLETION \<and> content \<noteq> []
          then grp\<lparr>g_questions := compileNotes (\<lambda>i. ''q_prev_'' @ numToString i) content\<rparr>
          else grp
      | None \<Rightarrow> grp)"

text \<open>
  At save time an identifier is \<^verbatim>\<open>q_${Date.now()}_${Math.random()...}\<close>: the clock and the
  random source are the parameter \<open>freshId\<close>, the identifier produced for the \<open>i\<close>-th
  match of the group at a position of the list.
\<close>

definition saveGroup :: "(nat \<Rightarrow> string) \<Rightarrow> QuestionGroup \<Rightarrow> QuestionGroup" where
  "saveGroup freshId grp =
     (case g_content grp of
        Some content \<Rightarrow>
          if g_type grp = GT_NOTES_COMPLETION \<and> content \<noteq> []
          then grp\<lparr>g_questions := compileNotes freshId content\<rparr>
          else grp
      | None \<Rightarrow> grp)"

definition processedQuestionGroups ::
  "(nat \<Rightarrow> nat \<Rightarrow> string) \<Rightarrow> QuestionGroup list \<Rightarrow> QuestionGroup list" where
  "processedQuestionGroups freshId tempQuestionGroups =
     map (\<lambda>(gi, grp). saveGroup (freshId gi) grp) (enumerate 0 tempQuestionGroups)"

definition getPreviewAssignment ::
  "AssignmentDraft \<Rightarrow> QuestionGroup list \<Rightarrow> AssignmentDraft" where
  "getPreviewAssignment newAssignment tempQuestionGroups =
     newAssignment\<lparr>d_id := Some ''preview_id'',
                   d_title := Some (orElse (d_title newAssignment) ''Untitled Assignment''),
                   d_questionGroups := Some (map previewGroup tempQuestionGroups)\<rparr>"

subsection \<open>handleSaveAssignment\<close>

text \<open>
  The handler either alerts and returns, or hands one entity to one of the two
  persistence callbacks. \<open>nowString\<close> is \<^verbatim>\<open>Date.now().toString()\<close>. The component's
  \<^verbatim>\<open>classes\<close> prop is not read by the handler, so it is no argument.
\<close>

datatype PersistCall = OnUpdateAssignment Assignment | OnAddAssignment Assignment

definition handleSaveAssignment ::
  "string \<Rightarrow> (nat \<Rightarrow> nat \<Rightarrow> string) \<Rightarrow> string option \<Rightarrow> AssignmentDraft \<Rightarrow>
   QuestionGroup list \<Rightarrow> string option \<Rightarrow> string option \<Rightarrow> string + PersistCall" where
  "handleSaveAssignment nowString freshId selectedClassId newAssignment tempQuestionGroups
     editingAssignmentId viewingGroupId =
     (let classId = (if truthy selectedClassId then selectedClassId
                     else d_classId newAssignment)
      in if \<not> truthy (d_title newAssignment) \<or> \<not> truthy (d_dueDate newAssignment)
            \<or> \<not> truthy classId
         then Inl ''Please fill in Title, Due Date, and ensure Class is selected''
         else if d_type newAssignment = Some WRITING
                 \<and> \<not> truthy (d_writingPrompt newAssignment)
         then Inl ''Please enter an essay prompt''
         else
           (let finalWritingTaskType =
                  (if d_type newAssignment = Some WRITING
                      \<and> d_writingTaskType newAssignment = None
                   then Some TASK_1 else d_writingTaskType newAssignment);
                assignmentData =
                  \<lparr>a_id = orElse editingAssignmentId nowString,
                   a_classId = orElse classId [],
                   a_groupId = orUndefined viewingGroupId,
                   a_title = orElse (d_title newAssignment) [],
                   a_type = d_type newAssignment,
                   a_description = orElse (d_description newAssignment) [],
                   a_dueDate = orElse (d_dueDate newAssignment) [],
                   a_timeLimit = d_timeLimit newAssignment,
                   a_passageContent = d_passageContent newAssignment,
                   a_questionGroups =
                     Some (processedQuestionGroups freshId tempQuestionGroups),
                   a_videoUrl = d_videoUrl newAssignment,
                   a_writingTaskType = finalWritingTaskType,
                   a_writingPrompt = d_writingPrompt newAssignment,
                   a_writingImage = d_writingImage newAssignment,
                   a_questions = None\<rparr>
            in if truthy editingAssignmentId
               then Inr (OnUpdateAssignment assignmentData)
               else Inr (OnAddAssignment assignmentData)))"

text \<open>
  The validation rule as the specification words it needs the class list:
  \<open>resolvesClass\<close> says that an identifier is the identifier of an existing class.
\<close>

record ClassGroup =
  c_id :: string
  c_name :: string
  c_schedule :: string
  c_description :: "string option"

definition resolvesClass :: "ClassGroup list \<Rightarrow> string option \<Rightarrow> bool" where
  "resolvesClass classes classId =
     (case classId of None \<Rightarrow> False | Some cid \<Rightarrow> cid \<in> set (map c_id classes))"

text \<open>The condition under which the handler alerts instead of saving.\<close>

definition saveRejected ::
  "string option \<Rightarrow> AssignmentDraft \<Rightarrow> bool" where
  "saveRejected selectedClassId newAssignment =
     (\<not> truthy (d_title newAssignment) \<or> \<not> truthy (d_dueDate newAssignment)
      \<or> (\<not> truthy selectedClassId \<and> \<not> truthy (d_classId newAssignment))
      \<or> (d_type newAssignment = Some WRITING \<and> \<not> truthy (d_writingPrompt newAssignment)))"

text \<open>The entity handed to persistence, if any.\<close>

definition persistedAssignment :: "string + PersistCall \<Rightarrow> Assignment option" where
  "persistedAssignment r =
     (case r of
        Inl msg \<Rightarrow> None
      | Inr (OnUpdateAssignment a) \<Rightarrow> Some a
      | Inr (OnAddAssignment a) \<Rightarrow> Some a)"

subsection \<open>handleGroupTypeChange\<close>

text \<open>
  \<^verbatim>\<open>updated[index].type = ...\<close> on an index outside the array throws a
  \<^verbatim>\<open>TypeError\<close>. An array, also the empty one, is truthy: \<^verbatim>\<open>!updated[index].headingList\<close>
  holds only of an absent list.
\<close>

datatype js_error = TypeError

definition handleGroupTypeChange ::
  "QuestionGroup list \<Rightarrow> nat \<Rightarrow> GroupType \<Rightarrow> js_error + QuestionGroup list" where
  "handleGroupTypeChange tempQuestionGroups index newType =
     (if index < length tempQuestionGroups
      then
        (let g0 = tempQuestionGroups ! index;
             g1 = g0\<lparr>g_type := newType\<rparr>;
             g2 = g1\<lparr>g_instruction :=
                       (case QUESTION_TYPE_INSTRUCTIONS newType of
                          Some s \<Rightarrow> s | None \<Rightarrow> [])\<rparr>;
             g3 = (if newType = GT_MATCHING_HEADINGS \<and> g_headingList g2 = None
                   then g2\<lparr>g_headingList := Some []\<rparr> else g2);
             g4 = (if (newType = GT_MATCHING_FEATURES
                       \<or> newType = GT_MATCHING_SENTENCE_ENDINGS)
                      \<and> g_matchOptions g3 = None
                   then g3\<lparr>g_matchOptions := Some []\<rparr> else g3)
         in Inr (tempQuestionGroups[index := g4]))
      else Inl TypeError)"

section \<open>Auto-grading (StudentPortal.tsx)\<close>

text \<open>
  The answers of a student and a report are \<^verbatim>\<open>Record<string, ...>\<close> objects, modelled as
  maps from question identifiers. \<open>allQuestions\<close> is the flattening that both
  \<^verbatim>\<open>handleSubmit\<close> and the gradebook compute: the questions of the groups when the
  assignment has \<^verbatim>\<open>questionGroups\<close>, the legacy \<^verbatim>\<open>questions\<close> list otherwise.
\<close>

definition allQuestions :: "Assignment \<Rightarrow> Question list" where
  "allQuestions a =
     (case a_questionGroups a of
        Some groups \<Rightarrow> concat (map g_questions groups)
      | None \<Rightarrow> (case a_questions a of Some qs \<Rightarrow> qs | None \<Rightarrow> []))"

text \<open>
  The flattening in the words of the specification: the concatenation of the questions of
  all question groups, in group order.
\<close>

definition groupQuestions :: "Assignment \<Rightarrow> Question list" where
  "groupQuestions a =
     concat (map g_questions (case a_questionGroups a of None \<Rightarrow> [] | Some groups \<Rightarrow> groups))"

definition maxSelectionOr1 :: "Question \<Rightarrow> int" where
  \<comment> \<open>\<^verbatim>\<open>q.maxSelection || 1\<close>\<close>
  "maxSelectionOr1 q =
     (case q_maxSelection q of None \<Rightarrow> 1 | Some n \<Rightarrow> if n = 0 then 1 else n)"


definition trimmedAnswer :: "(string \<rightharpoonup> string) \<Rightarrow> string \<Rightarrow> js_error + string" where
  \<comment> \<open>\<^verbatim>\<open>(answers[key] || "").trim()\<close>. An inherited member of \<^verbatim>\<open>Object.prototype\<close> is
      truthy and has no \<^verbatim>\<open>trim\<close> method: the call throws a TypeError.\<close>
  "trimmedAnswer answers key =
     (case getProp answers key of
        Own s \<Rightarrow> Inr (trim (orElse (Some s) []))
      | Undefined \<Rightarrow> Inr (trim (orElse None []))
      | Inherited \<Rightarrow> Inl TypeError)"

definition gradeQuestion :: "(string \<rightharpoonup> string) \<Rightarrow> Question \<Rightarrow> js_error + QuestionResult" where
  \<comment> \<open>The body of the \<^verbatim>\<open>forEach\<close> callback, up to the result it stores.\<close>
  "gradeQuestion answers q =
     (case trimmedAnswer answers (q_id q) of
        Inl e \<Rightarrow> Inl e
      | Inr studentAns \<Rightarrow>
          (let correctAns = trim (orElse (q_correctAnswer q) []);
               isCorrect =
                 (if q_type q = QT_MCQ \<and> maxSelectionOr1 q > 1
                  then (let sSorted = join '','' (sort (map trim (split CHR '','' studentAns)));
                            cSorted = join '','' (sort (map trim (split CHR '','' correctAns)))
                        in sSorted = cSorted)
                  else if q_type q = QT_FILL_IN_BLANKS \<or> q_type q = QT_NOTES_COMPLETION
                  then toLowerCase studentAns = toLowerCase correctAns
                  else studentAns = correctAns)
           in Inr \<lparr>r_questionId = q_id q, r_isCorrect = isCorrect,
                   r_studentAnswer = studentAns, r_correctAnswer = correctAns\<rparr>))"

fun gradeAll ::
  "(string \<rightharpoonup> string) \<Rightarrow> Question list \<Rightarrow> SubmissionReport \<times> nat \<Rightarrow>
   js_error + SubmissionReport \<times> nat"
  where
  \<comment> \<open>The \<^verbatim>\<open>forEach\<close> loop; its state is the report and \<^verbatim>\<open>correctCount\<close>. An exception
      of the callback ends the loop.\<close>
  "gradeAll answers [] st = Inr st"
| "gradeAll answers (q # qs) (report, correctCount) =
     (case gradeQuestion answers q of
        Inl e \<Rightarrow> Inl e
      | Inr r \<Rightarrow>
          gradeAll answers qs
            (setProp report (q_id q) r,
             if r_isCorrect r then correctCount + 1 else correctCount))"

text \<open>
  \<open>handleSubmit\<close> returns the submission handed to \<^verbatim>\<open>onSubmit\<close>, \<open>Inr None\<close> when no
  assignment is selected and the handler returns at once, and \<open>Inl\<close> the exception
  when grading throws: the handler has no \<^verbatim>\<open>try\<close>, and nothing is submitted then.
  \<open>submissionId\<close> is the random identifier, \<open>transcriptionValues\<close> is
  \<^verbatim>\<open>Object.values(transcriptions)\<close>.
\<close>

definition handleSubmit ::
  "Assignment option \<Rightarrow> User \<Rightarrow> (string \<rightharpoonup> string) \<Rightarrow> string list \<Rightarrow> string \<Rightarrow>
   SubmissionMetadata option \<Rightarrow> js_error + Submission option" where
  "handleSubmit selectedAssignment user answers transcriptionValues submissionId metadata =
     (case selectedAssignment of
        None \<Rightarrow> Inr None
      | Some a \<Rightarrow>
          (case (if a_type a = Some READING \<or> a_type a = Some LISTENING
                 then (case gradeAll answers (allQuestions a) (Map.empty, 0) of
                         Inl e \<Rightarrow> Inl e
                       | Inr (report, correctCount) \<Rightarrow>
                           Inr (GRADED,
                                Some (numToString correctCount @ ''/''
                                      @ numToString (length (allQuestions a))),
                                Some report))
                 else Inr (SUBMITTED, None, None)) of
             Inl e \<Rightarrow> Inl e
           | Inr (status, grade, report) \<Rightarrow>
               (let transcriptionText =
                      join [CHR 0x0A, CHR 0x0A, CHR ''-'', CHR ''-'', CHR ''-'', CHR 0x0A, CHR 0x0A]
                        transcriptionValues
                in Inr (Some \<lparr>s_id = submissionId, s_assignmentId = a_id a,
                              s_studentId = u_id user, s_studentName = u_name user,
                              s_answers = answers, s_status = status, s_grade = grade,
                              s_feedback = None,
                              s_transcription = orUndefined (Some transcriptionText),
                              s_report = report, s_metadata = metadata\<rparr>))))"

text \<open>
  The comparison rules in the words of the specification, for the trimmed answer \<open>s\<close>
  and the trimmed key \<open>c\<close>. The multi-select rule splits on commas, trims each element,
  sorts and rejoins (\<open>sortedJoin\<close>), which compares the trimmed elements as multisets
  (\<open>sameSelection\<close>); the text rule compares character by character up to case.
\<close>

definition sortedJoin :: "string \<Rightarrow> string" where
  "sortedJoin s = join '','' (sort (map trim (split CHR '','' s)))"

definition sameSelection :: "string \<Rightarrow> string \<Rightarrow> bool" where
  "sameSelection s c =
     (mset (map trim (split CHR '','' s)) = mset (map trim (split CHR '','' c)))"

definition sameUpToCase :: "string \<Rightarrow> string \<Rightarrow> bool" where
  "sameUpToCase s c = list_all2 (\<lambda>x y. toLowerChar x = toLowerChar y) s c"

definition isMultiSelect :: "Question \<Rightarrow> bool" where
  "isMultiSelect q =
     (q_type q = QT_MCQ \<and> (case q_maxSelection q of None \<Rightarrow> False | Some n \<Rightarrow> n > 1))"

definition isTextFill :: "Question \<Rightarrow> bool" where
  "isTextFill q = (q_type q = QT_FILL_IN_BLANKS \<or> q_type q = QT_NOTES_COMPLETION)"

definition specIsCorrect :: "Question \<Rightarrow> string \<Rightarrow> string \<Rightarrow> bool" where
  "specIsCorrect q s c =
     (if isMultiSelect q then sortedJoin s = sortedJoin c
      else if isTextFill q then sameUpToCase s c
      else s = c)"


text \<open>
  The result that these rules give for a question: the trimmed answer, the empty string
  for a question without an entry in the answers, the trimmed key, the empty string for
  a question without a key, and the verdict of the rule of the type.
\<close>

definition ruleResult :: "(string \<rightharpoonup> string) \<Rightarrow> Question \<Rightarrow> QuestionResult" where
  "ruleResult answers q =
     (let s = trim (orElse (answers (q_id q)) []);
          c = trim (orElse (q_correctAnswer q) [])
      in \<lparr>r_questionId = q_id q, r_isCorrect = specIsCorrect q s c,
          r_studentAnswer = s, r_correctAnswer = c\<rparr>)"

section \<open>Analytics (Gradebook.tsx)\<close>

record QuestionStat =
  st_question :: Question
  st_accuracy :: jsnum
  st_correctCount :: nat
  st_attemptCount :: nat

record AnalyticsData =
  an_assignment :: Assignment
  an_assignmentSubmissions :: "Submission list"
  an_gradedSubmissions :: "Submission list"
  an_questionStats :: "QuestionStat list"
  an_averageScore :: jsnum
  an_completionRate :: jsnum
  an_allQuestions :: "Question list"

fun countAttempts :: "Submission list \<Rightarrow> string \<Rightarrow> nat \<times> nat \<Rightarrow> nat \<times> nat" where
  \<comment> \<open>The inner \<^verbatim>\<open>forEach\<close>; its state is \<^verbatim>\<open>correctCount\<close> and \<^verbatim>\<open>attemptCount\<close>. An
      inherited member of \<^verbatim>\<open>Object.prototype\<close> is truthy and has no \<^verbatim>\<open>isCorrect\<close>.\<close>
  "countAttempts [] qid st = st"
| "countAttempts (sub # subs) qid (correctCount, attemptCount) =
     (case s_report sub of
        None \<Rightarrow> countAttempts subs qid (correctCount, attemptCount)
      | Some report \<Rightarrow>
          (case getProp report qid of
             Undefined \<Rightarrow> countAttempts subs qid (correctCount, attemptCount)
           | Inherited \<Rightarrow> countAttempts subs qid (correctCount, attemptCount + 1)
           | Own r \<Rightarrow>
               countAttempts subs qid
                 (if r_isCorrect r then correctCount + 1 else correctCount,
                  attemptCount + 1)))"

definition questionStat :: "Submission list \<Rightarrow> Question \<Rightarrow> QuestionStat" where
  "questionStat gradedSubmissions q =
     (let (correctCount, attemptCount) = countAttempts gradedSubmissions (q_id q) (0, 0);
          accuracy = (if attemptCount > 0
                      then Math_round (js_mul (js_div (ofLength correctCount)
                                                      (ofLength attemptCount)) (Fin 100))
                      else Fin 0)
      in \<lparr>st_question = q, st_accuracy = accuracy, st_correctCount = correctCount,
          st_attemptCount = attemptCount\<rparr>)"

text \<open>
  \<^verbatim>\<open>Array.prototype.sort\<close> with a comparator is stable; for a comparator that is
  consistent with a total preorder it returns the ordered permutation in which elements
  that compare equal keep their order. \<open>js_sort\<close> computes it by insertion: an element
  moves behind the elements for which the comparator is positive.
\<close>

fun insertBy :: "('a \<Rightarrow> 'a \<Rightarrow> jsnum) \<Rightarrow> 'a \<Rightarrow> 'a list \<Rightarrow> 'a list" where
  "insertBy cmp x [] = [x]"
| "insertBy cmp x (y # ys) =
     (if js_gt0 (cmp x y) then y # insertBy cmp x ys else x # y # ys)"

definition js_sort :: "('a \<Rightarrow> 'a \<Rightarrow> jsnum) \<Rightarrow> 'a list \<Rightarrow> 'a list" where
  "js_sort cmp xs = foldr (insertBy cmp) xs []"

definition gradeScore :: "Submission \<Rightarrow> jsnum" where
  \<comment> \<open>One element of \<^verbatim>\<open>scores\<close>; a missing second part of the split is \<^verbatim>\<open>undefined\<close>,
      which \<^verbatim>\<open>isNaN\<close> rejects.\<close>
  "gradeScore s =
     (case s_grade s of
        None \<Rightarrow> Fin 0
      | Some g \<Rightarrow>
          if g = [] then Fin 0
          else (case map Number (split CHR ''/'' g) of
                  score # mx # _ \<Rightarrow>
                    if \<not> isNaN score \<and> \<not> isNaN mx \<and> js_gt0 mx
                    then js_mul (js_div score mx) (Fin 100) else Fin 0
                | _ \<Rightarrow> Fin 0))"

definition analyticsData ::
  "string option \<Rightarrow> Assignment list \<Rightarrow> Submission list \<Rightarrow> User list \<Rightarrow>
   AnalyticsData option" where
  "analyticsData selectedAssignmentId assignments submissions students =
     (case selectedAssignmentId of
        None \<Rightarrow> None
      | Some aid \<Rightarrow>
          if aid = [] then None
          else (case find (\<lambda>a. a_id a = aid) assignments of
                  None \<Rightarrow> None
                | Some assignment \<Rightarrow>
                    (let assignmentSubmissions =
                           filter (\<lambda>s. s_assignmentId s = aid) submissions;
                         gradedSubmissions =
                           filter (\<lambda>s. s_status s = GRADED \<and> s_report s \<noteq> None)
                             assignmentSubmissions;
                         allQs = allQuestions assignment;
                         questionStats =
                           js_sort (\<lambda>a b. js_sub (st_accuracy a) (st_accuracy b))
                             (map (questionStat gradedSubmissions) allQs);
                         scores = map gradeScore gradedSubmissions;
                         averageScore =
                           (if length scores > 0
                            then Math_round (js_div (foldl js_add (Fin 0) scores)
                                                    (ofLength (length scores)))
                            else Fin 0);
                         completionRate =
                           (if length students > 0
                            then Math_round
                                   (js_mul (js_div (ofLength (length assignmentSubmissions))
                                                   (ofLength (length students))) (Fin 100))
                            else Fin 0)
                     in Some \<lparr>an_assignment = assignment,
                              an_assignmentSubmissions = assignmentSubmissions,
                              an_gradedSubmissions = gradedSubmissions,
                              an_questionStats = questionStats,
                              an_averageScore = averageScore,
                              an_completionRate = completionRate,
                              an_allQuestions = allQs\<rparr>)))"

text \<open>
  A student attempted a question, for the aggregator, when the report of the submission
  has an entry for it.
\<close>

definition attempted :: "string \<Rightarrow> Submission \<Rightarrow> bool" where
  "attempted qid sub =
     (case s_report sub of None \<Rightarrow> False | Some report \<Rightarrow> report qid \<noteq> None)"

definition answeredCorrectly :: "string \<Rightarrow> Submission \<Rightarrow> bool" where
  "answeredCorrectly qid sub =
     (case s_report sub of
        None \<Rightarrow> False
      | Some report \<Rightarrow> (case report qid of None \<Rightarrow> False | Some r \<Rightarrow> r_isCorrect r))"

definition isGradedFor :: "string \<Rightarrow> Submission \<Rightarrow> bool" where
  "isGradedFor aid s =
     (s_assignmentId s = aid \<and> s_status s = GRADED \<and> s_report s \<noteq> None)"

text \<open>
  The statistics in the words of the specification: the attempts at a question are the
  graded submissions of the assignment that attempted it, the accuracy is the rounded
  percentage of the correct ones among them, in double arithmetic, and 0 without
  attempts. \<open>isDouble\<close> holds of the rationals that are doubles, \<open>isPercent\<close> of the
  Numbers that are an integer from 0 to 100, and \<open>js_le\<close> is \<^verbatim>\<open>x <= y\<close>. \<open>gradeInRange\<close>
  holds of a grade as the auto-grader writes it: absent, or two decimal numbers around
  a slash, the first at most the second, which is below \<open>2 ^ 53\<close>.
\<close>

definition isDouble :: "rat \<Rightarrow> bool" where
  "isDouble x =
     (\<exists>m k :: int. \<bar>m\<bar> < 2 ^ 53 \<and> - 1074 \<le> k \<and> x = of_int m * 2 powi k \<and> \<bar>x\<bar> < 2 powi 1024)"

definition isPercent :: "jsnum \<Rightarrow> bool" where
  "isPercent x = (case x of Fin a \<Rightarrow> a = of_int \<lfloor>a\<rfloor> \<and> 0 \<le> a \<and> a \<le> 100 | _ \<Rightarrow> False)"

definition percentValue :: "jsnum \<Rightarrow> int" where
  \<comment> \<open>The integer that a percentage denotes.\<close>
  "percentValue x = (case x of Fin a \<Rightarrow> \<lfloor>a\<rfloor> | _ \<Rightarrow> 0)"

fun js_le :: "jsnum \<Rightarrow> jsnum \<Rightarrow> bool" where
  "js_le NaN y = False"
| "js_le x NaN = False"
| "js_le NInf y = True"
| "js_le x PInf = True"
| "js_le (Fin a) (Fin b) = (a \<le> b)"
| "js_le x y = False"

definition gradeInRange :: "Submission \<Rightarrow> bool" where
  "gradeInRange s =
     (case s_grade s of
        None \<Rightarrow> True
      | Some g \<Rightarrow>
          (case split CHR ''/'' g of
             [a, b] \<Rightarrow> a \<noteq> [] \<and> list_all isDigit a \<and> b \<noteq> [] \<and> list_all isDigit b \<and>
                       digitsValue a \<le> digitsValue b \<and> int (digitsValue b) < 2 ^ 53
           | _ \<Rightarrow> False))"

definition percentage :: "nat \<Rightarrow> nat \<Rightarrow> jsnum" where
  "percentage c a =
     (if a > 0 then Math_round (js_mul (js_div (ofLength c) (ofLength a)) (Fin 100)) else Fin 0)"

definition gradedAttempts :: "string \<Rightarrow> Submission list \<Rightarrow> string \<Rightarrow> Submission list" where
  "gradedAttempts aid submissions qid =
     filter (\<lambda>s. s_assignmentId s = aid \<and> s_status s = GRADED \<and> attempted qid s) submissions"

definition gradedCorrect :: "string \<Rightarrow> Submission list \<Rightarrow> string \<Rightarrow> Submission list" where
  "gradedCorrect aid submissions qid =
     filter (\<lambda>s. s_assignmentId s = aid \<and> s_status s = GRADED \<and> answeredCorrectly qid s)
       submissions"

definition expectedStat :: "string \<Rightarrow> Submission list \<Rightarrow> Question \<Rightarrow> QuestionStat" where
  "expectedStat aid submissions q =
     \<lparr>st_question = q,
      st_accuracy = percentage (length (gradedCorrect aid submissions (q_id q)))
                               (length (gradedAttempts aid submissions (q_id q))),
      st_correctCount = length (gradedCorrect aid submissions (q_id q)),
      st_attemptCount = length (gradedAttempts aid submissions (q_id q))\<rparr>"

definition unanswered :: "string \<Rightarrow> Submission \<Rightarrow> bool" where
  "unanswered qid sub = (s_answers sub qid = None)"

definition statSummary :: "QuestionStat \<Rightarrow> string \<times> nat \<times> nat \<times> jsnum" where
  "statSummary st =
     (q_id (st_question st), st_correctCount st, st_attemptCount st, st_accuracy st)"

section \<open>Example data\<close>

text \<open>Concrete inputs on which the theorems below are run.\<close>

definition exQ1 :: Question where
  "exQ1 = \<lparr>q_id = ''q1'', q_text = ''The author visited Rome.'', q_type = QT_TRUE_FALSE_NG,
           q_options = None, q_correctAnswer = Some ''NOT GIVEN'', q_maxSelection = None\<rparr>"

definition exQ2 :: Question where
  "exQ2 = \<lparr>q_id = ''q2'', q_text = ''Which TWO are true?'', q_type = QT_MCQ,
           q_options = Some [''w'', ''x'', ''y'', ''z''], q_correctAnswer = Some ''A,D'',
           q_maxSelection = Some 2\<rparr>"

definition exQ3 :: Question where
  "exQ3 = \<lparr>q_id = ''q3'', q_text = ''The capital is [Paris].'', q_type = QT_FILL_IN_BLANKS,
           q_options = None, q_correctAnswer = Some ''Paris'', q_maxSelection = None\<rparr>"

definition exQ4 :: Question where
  "exQ4 = \<lparr>q_id = ''q4'', q_text = ''Unkeyed'', q_type = QT_YES_NO_NG,
           q_options = None, q_correctAnswer = None, q_maxSelection = None\<rparr>"

definition exGroup1 :: QuestionGroup where
  "exGroup1 = \<lparr>g_id = ''g1'', g_type = GT_TRUE_FALSE_NG, g_title = Some ''Questions 1'',
               g_instruction = ''Write TRUE, FALSE or NOT GIVEN.'', g_content = None,
               g_headingList = None, g_matchOptions = None, g_questions = [exQ1]\<rparr>"

definition exGroup2 :: QuestionGroup where
  "exGroup2 = \<lparr>g_id = ''g2'', g_type = GT_MIXED, g_title = None,
               g_instruction = ''Answer the questions.'', g_content = None,
               g_headingList = Some [''Origins'', ''Decline''], g_matchOptions = Some [''Smith''],
               g_questions = [exQ2, exQ3]\<rparr>"

definition exNotes :: QuestionGroup where
  "exNotes = \<lparr>g_id = ''g3'', g_type = GT_NOTES_COMPLETION, g_title = None,
              g_instruction = ''Complete the notes.'',
              g_content = Some ''The [sun] rises in the [east].'',
              g_headingList = None, g_matchOptions = None, g_questions = [exQ3]\<rparr>"

definition exNotesCleared :: QuestionGroup where
  "exNotesCleared = exNotes\<lparr>g_content := Some []\<rparr>"

definition exReading :: Assignment where
  "exReading = \<lparr>a_id = ''a1'', a_classId = ''c1'', a_groupId = None, a_title = ''Reading 1'',
                a_type = Some READING, a_description = [], a_dueDate = ''2025-01-31'',
                a_timeLimit = None, a_passageContent = Some ''A passage.'',
                a_questionGroups = Some [exGroup1, exGroup2], a_videoUrl = None,
                a_writingTaskType = None, a_writingPrompt = None, a_writingImage = None,
                a_questions = None\<rparr>"

definition exLegacy :: Assignment where
  "exLegacy = exReading\<lparr>a_id := ''a0'', a_questionGroups := None, a_questions := Some [exQ3]\<rparr>"

definition exWriting :: Assignment where
  "exWriting = exReading\<lparr>a_id := ''a2'', a_type := Some WRITING, a_questionGroups := None,
                         a_writingPrompt := Some ''Discuss both views.''\<rparr>"

definition exAnswers :: "string \<rightharpoonup> string" where
  "exAnswers = [''q1'' \<mapsto> ''not given'', ''q2'' \<mapsto> '' D,A '']"

definition exStudent :: User where
  "exStudent = \<lparr>u_id = ''u1'', u_name = ''Ana'', u_accessCode = Some ''123456'',
                u_enrolledClassIds = Some [''c1'']\<rparr>"

definition exDraft :: AssignmentDraft where
  "exDraft = \<lparr>d_id = None, d_classId = Some [], d_groupId = None,
              d_title = Some ''Reading 1'', d_type = Some READING, d_description = None,
              d_dueDate = Some ''2025-01-31'', d_timeLimit = None,
              d_passageContent = Some ''A passage.'', d_questionGroups = Some [],
              d_videoUrl = None, d_writingTaskType = Some TASK_1, d_writingPrompt = None,
              d_writingImage = None, d_questions = Some []\<rparr>"

definition exFreshId :: "nat \<Rightarrow> nat \<Rightarrow> string" where
  "exFreshId gi i = ''q_1700000000000_'' @ numToString gi @ ''x'' @ numToString i"

definition exReport :: "(string \<rightharpoonup> string) \<Rightarrow> SubmissionReport option" where
  \<comment> \<open>The report that the auto-grader writes for the example assignment.\<close>
  "exReport answers =
     (case handleSubmit (Some exReading) exStudent answers [] ''s'' None of
        Inr (Some sub) \<Rightarrow> s_report sub
      | _ \<Rightarrow> None)"

definition exSubmission :: "string \<Rightarrow> string \<Rightarrow> (string \<rightharpoonup> string) \<Rightarrow> string \<Rightarrow> Submission" where
  "exSubmission sid uid answers grade =
     \<lparr>s_id = sid, s_assignmentId = ''a1'', s_studentId = uid, s_studentName = uid,
      s_answers = answers, s_status = GRADED, s_grade = Some grade, s_feedback = None,
      s_transcription = None, s_report = exReport answers, s_metadata = None\<rparr>"

definition exSubmissions :: "Submission list" where
  "exSubmissions =
     [exSubmission ''s1'' ''u1'' exAnswers ''1/3'',
      exSubmission ''s2'' ''u2'' [''q1'' \<mapsto> ''NOT GIVEN'', ''q2'' \<mapsto> ''A,D''] ''2/3'',
      exSubmission ''s3'' ''u3'' Map.empty ''0/3'']"

text \<open>
  An assignment with a question whose identifier names a member of
  \<^verbatim>\<open>Object.prototype\<close>, and one with a question whose identifier is \<^verbatim>\<open>__proto__\<close>.
\<close>

definition exQInherited :: Question where
  "exQInherited = exQ1\<lparr>q_id := ''constructor''\<rparr>"

definition exInherited :: Assignment where
  "exInherited =
     exReading\<lparr>a_id := ''a3'',
               a_questionGroups := Some [exGroup1\<lparr>g_questions := [exQ1, exQInherited]\<rparr>]\<rparr>"

definition exQSetter :: Question where
  "exQSetter = exQ1\<lparr>q_id := ''__proto__''\<rparr>"

definition exSetter :: Assignment where
  "exSetter =
     exReading\<lparr>a_id := ''a4'',
               a_questionGroups := Some [exGroup1\<lparr>g_questions := [exQSetter]\<rparr>]\<rparr>"

section \<open>Facts about the string functions\<close>

lemma split_not_Nil: "split sep s \<noteq> []"
  by (induction s) (auto split: list.splits)

lemma split_no_sep: "sep \<notin> set x \<Longrightarrow> split sep x = [x]"
  by (induction x) auto

lemma split_append_sep:
  "sep \<notin> set x \<Longrightarrow> split sep (x @ sep # rest) = x # split sep rest"
  by (induction x) (auto split: list.splits)

lemma split_join:
  "xs \<noteq> [] \<Longrightarrow> \<forall>x\<in>set xs. sep \<notin> set x \<Longrightarrow> split sep (join [sep] xs) = xs"
proof (induction xs)
  case Nil
  then show ?case by simp
next
  case (Cons x xs)
  then show ?case
    by (cases xs) (simp_all add: split_no_sep split_append_sep)
qed

lemma join_split: "join [sep] (split sep s) = s"
proof (induction s)
  case Nil
  then show ?case by simp
next
  case (Cons c cs)
  show ?case
  proof (cases "c = sep")
    case True
    then show ?thesis using Cons split_not_Nil[of sep cs]
      by (cases "split sep cs") auto
  next
    case False
    then show ?thesis using Cons split_not_Nil[of sep cs]
      by (cases "split sep cs"; cases "tl (split sep cs)") auto
  qed
qed

lemma join_eq_Nil: "xs \<noteq> [] \<Longrightarrow> \<forall>x\<in>set xs. x \<noteq> [] \<Longrightarrow> join sep xs \<noteq> []"
  by (induction sep xs rule: join.induct) auto

lemma join_Nil_cases: "join sep ys = [] \<Longrightarrow> sep \<noteq> [] \<Longrightarrow> ys = [] \<or> ys = [[]]"
  by (cases "(sep, ys)" rule: join.cases) auto

lemma split_pieces_no_sep: "x \<in> set (split sep s) \<Longrightarrow> sep \<notin> set x"
proof (induction s arbitrary: x)
  case Nil
  then show ?case by simp
next
  case (Cons c cs)
  then show ?case
    by (cases "split sep cs") (auto split: if_splits)
qed

lemma join_inject:
  assumes "xs \<noteq> []" "ys \<noteq> []" "\<forall>x\<in>set xs. sep \<notin> set x" "\<forall>y\<in>set ys. sep \<notin> set y"
    and "join [sep] xs = join [sep] ys"
  shows "xs = ys"
proof -
  have "split sep (join [sep] xs) = split sep (join [sep] ys)"
    by (simp only: assms(5))
  then show ?thesis
    by (simp only: split_join[OF assms(1,3)] split_join[OF assms(2,4)])
qed

lemma trim_Nil: "trim [] = []"
  by (simp add: trim_def)

lemma dropWhile_id: "xs = [] \<or> \<not> P (hd xs) \<Longrightarrow> dropWhile P xs = xs"
  by (cases xs) auto

lemma trim_ends:
  "trim s = [] \<or> (\<not> isWhiteSpace (hd (trim s)) \<and> \<not> isWhiteSpace (last (trim s)))"
proof -
  define t where "t = dropWhile isWhiteSpace s"
  define v where "v = dropWhile isWhiteSpace (rev t)"
  have tr: "trim s = rev v" by (simp add: trim_def t_def v_def)
  show ?thesis
  proof (cases "v = []")
    case True
    then show ?thesis using tr by simp
  next
    case False
    then have hv: "\<not> isWhiteSpace (hd v)"
      unfolding v_def by (rule hd_dropWhile)
    have tne: "t \<noteq> []" using False by (auto simp: v_def)
    then have ht: "\<not> isWhiteSpace (hd t)"
      unfolding t_def by (rule hd_dropWhile)
    obtain us where us: "rev t = us @ v"
      unfolding v_def by (metis takeWhile_dropWhile_id)
    then have "t = rev v @ rev us" by (metis rev_append rev_rev_ident)
    then have "hd (rev v) = hd t" using False by simp
    moreover have "last (rev v) = hd v" using False by (simp add: last_rev)
    ultimately show ?thesis using tr hv ht by simp
  qed
qed

lemma trim_fixed:
  assumes "u = [] \<or> (\<not> isWhiteSpace (hd u) \<and> \<not> isWhiteSpace (last u))"
  shows "trim u = u"
proof (cases "u = []")
  case True
  then show ?thesis by (simp add: trim_def)
next
  case False
  with assms have h: "\<not> isWhiteSpace (hd u)" and l: "\<not> isWhiteSpace (last u)" by auto
  have "dropWhile isWhiteSpace u = u" using h by (simp add: dropWhile_id)
  moreover have "dropWhile isWhiteSpace (rev u) = rev u"
    using l False by (simp add: dropWhile_id hd_rev)
  ultimately show ?thesis by (simp add: trim_def)
qed

lemma trim_idem: "trim (trim s) = trim s"
  using trim_ends[of s] by (rule trim_fixed)

lemma set_trim: "set (trim s) \<subseteq> set s"
  by (auto simp: trim_def dest!: set_dropWhileD)

lemma sort_eqI: "sorted ys \<Longrightarrow> mset ys = mset xs \<Longrightarrow> sort xs = ys"
  by (metis properties_for_sort)

lemma sorted_filter_sort:
  fixes xs :: "string list"
  shows "sorted xs \<Longrightarrow> sort (filter P xs) = filter P xs"
  by (simp add: sort_eqI sorted_wrt_filter)

lemma filter_neq_id: "l \<notin> set xs \<Longrightarrow> filter (\<lambda>x. x \<noteq> l) xs = xs"
  by (induction xs) auto

lemma of_char_digitChar: "d < 10 \<Longrightarrow> (of_char (digitChar d) :: nat) = 48 + d"
  by (simp add: digitChar_def)

lemma isDigit_digitChar: "d < 10 \<Longrightarrow> isDigit (digitChar d)"
  by (simp add: isDigit_def of_char_digitChar)

lemma numToString_not_Nil: "numToString n \<noteq> []"
  by (subst numToString.simps) simp

lemma numToString_digits: "list_all isDigit (numToString n)"
proof (induction n rule: numToString.induct)
  case (1 n)
  show ?case
  proof (cases "n < 10")
    case True
    then show ?thesis by (subst numToString.simps) (simp add: isDigit_digitChar)
  next
    case False
    then show ?thesis using 1 by (subst numToString.simps) (simp add: isDigit_digitChar)
  qed
qed

lemma digitsValue_snoc:
  "digitsValue (s @ [c]) = 10 * digitsValue s + ((of_char c :: nat) - 48)"
  by (simp add: digitsValue_def)

lemma digitsValue_numToString: "digitsValue (numToString n) = n"
proof (induction n rule: numToString.induct)
  case (1 n)
  show ?case
  proof (cases "n < 10")
    case True
    then show ?thesis
      by (subst numToString.simps) (simp add: digitsValue_def of_char_digitChar)
  next
    case False
    then have "digitsValue (numToString (n div 10)) = n div 10" using 1 by simp
    then show ?thesis using False
      by (subst numToString.simps) (simp add: digitsValue_snoc of_char_digitChar)
  qed
qed

lemma isDigit_not_space: "isDigit c \<Longrightarrow> \<not> isWhiteSpace c"
  by (auto simp: isDigit_def isWhiteSpace_def)

lemma isDigit_not_slash: "isDigit c \<Longrightarrow> c \<noteq> CHR ''/''"
  by (auto simp: isDigit_def)

lemma digits_trim: "list_all isDigit s \<Longrightarrow> trim s = s"
proof (rule trim_fixed)
  assume d: "list_all isDigit s"
  show "s = [] \<or> \<not> isWhiteSpace (hd s) \<and> \<not> isWhiteSpace (last s)"
  proof (cases "s = []")
    case True
    then show ?thesis by simp
  next
    case False
    then have "hd s \<in> set s" "last s \<in> set s" by simp_all
    then show ?thesis using d isDigit_not_space by (auto simp: list_all_iff)
  qed
qed


section \<open>Facts about the numbers\<close>

text \<open>
  Rounding to a double is exact on a double, and keeps a value between 0 and a
  double in that range: no result of the arithmetic below leaves its interval.
\<close>

lemma binade_bounds:
  assumes "0 < x"
  shows "2 powi binade x \<le> x" "x < 2 powi (binade x + 1)"
proof -
  obtain p q where pq: "quotient_of x = (p, q)" by (cases "quotient_of x")
  have q: "0 < q" using pq quotient_of_denom_pos by blast
  have x: "x = of_int p / of_int q" using pq by (simp add: quotient_of_div)
  have p: "0 < p" using assms q x by (simp add: zero_less_divide_iff)
  define bp where "bp = bitlen p"
  define bq where "bq = bitlen q"
  have bp1: "1 \<le> bp" and bq1: "1 \<le> bq"
    using p q by (auto simp: bp_def bq_def bitlen_alt_def)
  have pb: "(2::rat) powi (bp - 1) \<le> of_int p" "of_int p < (2::rat) powi bp"
  proof -
    have "2 ^ nat (bp - 1) \<le> p" "p < 2 ^ nat bp"
      using bitlen_bounds[OF p] by (auto simp: bp_def)
    then have "(of_int (2 ^ nat (bp - 1)) :: rat) \<le> of_int p" "(of_int p :: rat) < of_int (2 ^ nat bp)"
      by (simp_all only: of_int_le_iff of_int_less_iff)
    then show "(2::rat) powi (bp - 1) \<le> of_int p" "of_int p < (2::rat) powi bp"
      using bp1 by (simp_all add: power_int_def)
  qed
  have qb: "(2::rat) powi (bq - 1) \<le> of_int q" "of_int q < (2::rat) powi bq"
  proof -
    have "2 ^ nat (bq - 1) \<le> q" "q < 2 ^ nat bq"
      using bitlen_bounds[OF q] by (auto simp: bq_def)
    then have "(of_int (2 ^ nat (bq - 1)) :: rat) \<le> of_int q" "(of_int q :: rat) < of_int (2 ^ nat bq)"
      by (simp_all only: of_int_le_iff of_int_less_iff)
    then show "(2::rat) powi (bq - 1) \<le> of_int q" "of_int q < (2::rat) powi bq"
      using bq1 by (simp_all add: power_int_def)
  qed
  have qpos: "(0::rat) < of_int q" using q by simp
  have lo: "(2::rat) powi (bp - bq - 1) < x"
  proof -
    have "(2::rat) powi (bp - bq - 1) * of_int q < 2 powi (bp - bq - 1) * 2 powi bq"
      using qb(2) by (simp add: mult_strict_left_mono)
    also have "\<dots> = 2 powi (bp - 1)"
      by (simp flip: power_int_add)
    also have "\<dots> \<le> of_int p" by (rule pb(1))
    finally show ?thesis using qpos by (simp add: x pos_less_divide_eq)
  qed
  have hi: "x < (2::rat) powi (bp - bq + 1)"
  proof -
    have "of_int p < (2::rat) powi bp" by (rule pb(2))
    also have "\<dots> = 2 powi (bp - bq + 1) * 2 powi (bq - 1)"
      by (simp flip: power_int_add)
    also have "\<dots> \<le> 2 powi (bp - bq + 1) * of_int q"
      using qb(1) by (simp add: mult_left_mono)
    finally show ?thesis using qpos by (simp add: x pos_divide_less_eq)
  qed
  have b: "binade x = (if (2::rat) powi (bp - bq) \<le> x then bp - bq else bp - bq - 1)"
    by (simp add: binade_def pq bp_def bq_def)
  show "2 powi binade x \<le> x"
    using lo by (auto simp: b)
  show "x < 2 powi (binade x + 1)"
    using hi by (auto simp: b not_le)
qed


lemma binade_zero: "binade 0 = - 2"
  by (simp add: binade_def bitlen_alt_def)

lemma overflow_iff:
  assumes "0 \<le> r"
  shows "1024 \<le> binade r \<longleftrightarrow> 2 powi 1024 \<le> r"
proof (cases "r = 0")
  case True
  then show ?thesis by (simp add: binade_zero)
next
  case False
  then have r: "0 < r" using assms by simp
  note b = binade_bounds[OF r]
  show ?thesis
  proof
    assume "1024 \<le> binade r"
    then have "(2::rat) powi 1024 \<le> 2 powi binade r"
      by (intro power_int_increasing) auto
    then show "2 powi 1024 \<le> r" using b(1) by simp
  next
    assume h: "2 powi 1024 \<le> r"
    show "1024 \<le> binade r"
    proof (rule ccontr)
      assume "\<not> 1024 \<le> binade r"
      then have "(2::rat) powi (binade r + 1) \<le> 2 powi 1024"
        by (intro power_int_increasing) auto
      then show False using b(2) h by simp
    qed
  qed
qed

lemma roundHalfEven_of_int: "roundHalfEven (of_int j) = j"
  by (simp add: roundHalfEven_def)

lemma roundHalfEven_le: "x \<le> of_int j \<Longrightarrow> roundHalfEven x \<le> j"
proof -
  assume a: "x \<le> of_int j"
  have f: "\<lfloor>x\<rfloor> \<le> j" using a by (simp add: floor_le_iff) 
  show ?thesis
  proof (cases "x = of_int \<lfloor>x\<rfloor>")
    case True
    then have "roundHalfEven x = \<lfloor>x\<rfloor>"
      by (metis roundHalfEven_of_int)
    then show ?thesis using f by simp
  next
    case False
    moreover have "of_int \<lfloor>x\<rfloor> \<le> x" by (rule of_int_floor_le)
    ultimately have "of_int \<lfloor>x\<rfloor> < x" by (metis less_le)
    then have "of_int \<lfloor>x\<rfloor> < (of_int j :: rat)" using a by simp
    then have "\<lfloor>x\<rfloor> < j" by simp
    moreover have "roundHalfEven x \<le> \<lfloor>x\<rfloor> + 1"
      by (simp add: roundHalfEven_def Let_def)
    ultimately show ?thesis by simp
  qed
qed

lemma roundHalfEven_ge: "of_int j \<le> x \<Longrightarrow> j \<le> roundHalfEven x"
proof -
  assume "of_int j \<le> x"
  then have "j \<le> \<lfloor>x\<rfloor>" by (simp add: le_floor_iff)
  moreover have "\<lfloor>x\<rfloor> \<le> roundHalfEven x"
    by (simp add: roundHalfEven_def Let_def)
  ultimately show ?thesis by simp
qed

lemma double_grid:
  assumes d: "isDouble y" and a: "0 < a" "a \<le> \<bar>y\<bar>"
  shows "\<exists>j::int. \<bar>y\<bar> = of_int j * 2 powi (max (binade a - 52) (- 1074))"
proof -
  define s where "s = max (binade a - 52) (- 1074)"
  obtain m k :: int where mk: "\<bar>m\<bar> < 2 ^ 53" "- 1074 \<le> k" "y = of_int m * 2 powi k"
    using d unfolding isDouble_def by blast
  have ay: "\<bar>y\<bar> = of_int \<bar>m\<bar> * 2 powi k"
    by (simp add: mk(3) abs_mult)
  have ks: "s \<le> k"
  proof (rule ccontr)
    assume "\<not> s \<le> k"
    then have lt: "k < s" by simp
    then have s: "s = binade a - 52" using mk(2) by (auto simp: s_def)
    have "(of_int \<bar>m\<bar> :: rat) < of_int (2 ^ 53)"
      using mk(1) by (simp only: of_int_less_iff)
    then have "(of_int \<bar>m\<bar> :: rat) < 2 powi 53" by simp
    then have "\<bar>y\<bar> < 2 powi 53 * 2 powi k"
      unfolding ay by (simp add: mult_strict_right_mono)
    also have "\<dots> = 2 powi (53 + k)" by (simp add: power_int_add)
    also have "\<dots> \<le> 2 powi binade a"
      using lt s by (intro power_int_increasing) auto
    also have "\<dots> \<le> a" using binade_bounds(1)[OF a(1)] .
    finally show False using a(2) by simp
  qed
  have "(2::rat) powi k = 2 powi (k - s) * 2 powi s"
    by (simp flip: power_int_add)
  also have "(2::rat) powi (k - s) = of_int (2 ^ nat (k - s))"
    using ks by (simp add: power_int_def)
  finally have "\<bar>y\<bar> = of_int (\<bar>m\<bar> * 2 ^ nat (k - s)) * 2 powi s"
    unfolding ay by simp
  then show ?thesis unfolding s_def by blast
qed

lemma fl_range:
  assumes "0 \<le> x" "x \<le> y" "isDouble y"
  shows "\<exists>z. fl x = Fin z \<and> 0 \<le> z \<and> z \<le> y"
proof (cases "x = 0")
  case True
  then show ?thesis using assms by (auto simp: fl_def)
next
  case False
  then have x: "0 < x" using assms(1) by simp
  define s where "s = max (binade x - 52) (- 1074)"
  define r where "r = of_int (roundHalfEven (x / 2 powi s)) * (2::rat) powi s"
  have p: "(0::rat) < 2 powi s" by simp
  have y: "0 < y" "\<bar>y\<bar> = y" using x assms(2) by auto
  obtain j :: int where j: "y = of_int j * 2 powi s"
    using double_grid[OF assms(3) x] assms(2) y unfolding s_def by auto
  have "x / 2 powi s \<le> of_int j"
    using assms(2) p unfolding j by (simp add: pos_divide_le_eq)
  then have "roundHalfEven (x / 2 powi s) \<le> j" by (rule roundHalfEven_le)
  then have ry: "r \<le> y"
    unfolding r_def j using p by (simp add: mult_right_mono)
  have "(of_int 0 :: rat) \<le> x / 2 powi s" using x by simp
  then have "0 \<le> roundHalfEven (x / 2 powi s)" by (rule roundHalfEven_ge)
  then have r0: "0 \<le> r" unfolding r_def by simp
  have "y < 2 powi 1024" using assms(3) y unfolding isDouble_def by auto
  then have "\<not> 2 powi 1024 \<le> r" using ry by simp
  then have "\<not> 1024 \<le> binade r" using overflow_iff[OF r0] by simp
  then have "fl x = Fin r"
    using x by (simp add: fl_def Let_def r_def s_def)
  then show ?thesis using r0 ry by blast
qed

lemma fl_exact:
  assumes "isDouble x"
  shows "fl x = Fin x"
proof (cases "x = 0")
  case True
  then show ?thesis by (simp add: fl_def)
next
  case False
  then have a: "0 < \<bar>x\<bar>" by simp
  define s where "s = max (binade \<bar>x\<bar> - 52) (- 1074)"
  have p: "(2::rat) powi s \<noteq> 0" by simp
  obtain j :: int where j: "\<bar>x\<bar> = of_int j * 2 powi s"
    using double_grid[OF assms a] unfolding s_def by auto
  then have "\<bar>x\<bar> / 2 powi s = of_int j" using p by simp
  then have r: "of_int (roundHalfEven (\<bar>x\<bar> / 2 powi s)) * 2 powi s = \<bar>x\<bar>"
    by (simp add: roundHalfEven_of_int j)
  have "\<bar>x\<bar> < 2 powi 1024" using assms unfolding isDouble_def by auto
  then have "\<not> 2 powi 1024 \<le> \<bar>x\<bar>" by (simp only: not_le)
  then have nov: "\<not> 1024 \<le> binade \<bar>x\<bar>" using overflow_iff[of "\<bar>x\<bar>"] by simp
  have "fl x = (if 1024 \<le> binade \<bar>x\<bar> then (if 0 < x then PInf else NInf)
                else Fin (if 0 < x then \<bar>x\<bar> else - \<bar>x\<bar>))"
    unfolding fl_def Let_def using False r[unfolded s_def] by (simp only: if_False)
  also have "\<dots> = Fin (if 0 < x then \<bar>x\<bar> else - \<bar>x\<bar>)"
    using nov by (simp only: if_False)
  also have "(if 0 < x then \<bar>x\<bar> else - \<bar>x\<bar>) = x" by simp
  finally show ?thesis .
qed

lemma isDouble_of_int: "\<bar>n\<bar> < 2 ^ 53 \<Longrightarrow> isDouble (of_int n)"
proof -
  assume n: "\<bar>n\<bar> < 2 ^ 53"
  then have "(of_int \<bar>n\<bar> :: rat) < of_int (2 ^ 53)" by (simp only: of_int_less_iff)
  also have "\<dots> < 2 powi 1024" by simp
  finally have "\<bar>of_int n :: rat\<bar> < 2 powi 1024" by simp
  then show ?thesis
    unfolding isDouble_def using n by (intro exI[of _ n] exI[of _ 0]) simp
qed

lemma isDouble_of_nat: "n < 2 ^ 53 \<Longrightarrow> isDouble (of_nat n)"
  using isDouble_of_int[of "int n"] by simp

lemma fl_nonneg:
  assumes "0 \<le> x"
  shows "fl x = PInf \<or> (\<exists>z. fl x = Fin z \<and> 0 \<le> z)"
proof (cases "x = 0")
  case True
  then show ?thesis by (simp add: fl_def)
next
  case False
  then have x: "0 < x" using assms by simp
  define s where "s = max (binade \<bar>x\<bar> - 52) (- 1074)"
  define r where "r = of_int (roundHalfEven (\<bar>x\<bar> / 2 powi s)) * (2::rat) powi s"
  have "(of_int 0 :: rat) \<le> \<bar>x\<bar> / 2 powi s" by simp
  then have "0 \<le> roundHalfEven (\<bar>x\<bar> / 2 powi s)" by (rule roundHalfEven_ge)
  then have r0: "0 \<le> r" unfolding r_def by simp
  have "fl x = (if 1024 \<le> binade r then PInf else Fin r)"
    using x by (simp add: fl_def Let_def r_def s_def)
  then show ?thesis using r0 by auto
qed

lemma isDouble_1: "isDouble 1"
  using isDouble_of_nat[of 1] by simp

lemma isDouble_100: "isDouble 100"
  using isDouble_of_nat[of 100] by simp

lemma scaled_ratio:
  assumes "0 \<le> x" "x \<le> y" "0 < y"
  shows "\<exists>w. js_mul (js_div (Fin x) (Fin y)) (Fin 100) = Fin w \<and> 0 \<le> w \<and> w \<le> 100"
proof -
  have "0 \<le> x / y" "x / y \<le> 1" using assms by simp_all
  from fl_range[OF this isDouble_1]
  obtain z where z: "fl (x / y) = Fin z" "0 \<le> z" "z \<le> 1" by blast
  have "0 \<le> z * 100" "z * 100 \<le> 100" using z by simp_all
  from fl_range[OF this isDouble_100]
  obtain w where w: "fl (z * 100) = Fin w" "0 \<le> w" "w \<le> 100" by blast
  have "js_mul (js_div (Fin x) (Fin y)) (Fin 100) = Fin w"
    using assms(3) z(1) w(1) by simp
  then show ?thesis using w by blast
qed

lemma scaled_ratio_nonneg:
  assumes "0 \<le> x" "0 < y"
  shows "js_mul (js_div (Fin x) (Fin y)) (Fin 100) = PInf \<or>
         (\<exists>w. js_mul (js_div (Fin x) (Fin y)) (Fin 100) = Fin w \<and> 0 \<le> w)"
proof -
  have d: "js_div (Fin x) (Fin y) = fl (x / y)" using assms(2) by simp
  have "0 \<le> x / y" using assms by simp
  from fl_nonneg[OF this] show ?thesis
  proof
    assume "fl (x / y) = PInf"
    then show ?thesis unfolding d by (simp add: js_sign_def js_inf_def)
  next
    assume "\<exists>z. fl (x / y) = Fin z \<and> 0 \<le> z"
    then obtain z where z: "fl (x / y) = Fin z" "0 \<le> z" by blast
    have "0 \<le> z * 100" using z(2) by simp
    from fl_nonneg[OF this] show ?thesis unfolding d z(1) by simp
  qed
qed

lemma Math_round_percent:
  assumes "0 \<le> w" "w \<le> 100"
  shows "isPercent (Math_round (Fin w))"
proof -
  have "0 \<le> \<lfloor>w + 1 / 2\<rfloor>" using assms(1) by (simp add: zero_le_floor)
  moreover have "\<lfloor>w + 1 / 2\<rfloor> < 101"
    using assms(2) by (simp add: floor_less_iff)
  ultimately have "(0::rat) \<le> of_int \<lfloor>w + 1 / 2\<rfloor>" "(of_int \<lfloor>w + 1 / 2\<rfloor> :: rat) \<le> of_int 100"
    by (simp_all only: of_int_le_iff of_int_0_le_iff)
  then show ?thesis by (simp add: Math_round_def isPercent_def)
qed

lemma percentage_isPercent: "c \<le> a \<Longrightarrow> isPercent (percentage c a)"
proof (cases "0 < a")
  case False
  then show ?thesis by (simp add: percentage_def isPercent_def)
next
  case True
  assume "c \<le> a"
  then have "(0::rat) \<le> of_nat c" "(of_nat c :: rat) \<le> of_nat a" "(0::rat) < of_nat a"
    using True by simp_all
  from scaled_ratio[OF this]
  obtain w where w: "js_mul (js_div (Fin (of_nat c)) (Fin (of_nat a))) (Fin 100) = Fin w"
    "0 \<le> w" "w \<le> 100" by blast
  show ?thesis
    unfolding percentage_def ofLength_def w(1)
    using True Math_round_percent[OF w(2,3)] by simp
qed

lemma isPercent_cases:
  "isPercent x \<longleftrightarrow> (\<exists>k::int. x = Fin (of_int k) \<and> 0 \<le> k \<and> k \<le> 100)"
proof
  assume "isPercent x"
  then obtain a where a: "x = Fin a" "a = of_int \<lfloor>a\<rfloor>" "0 \<le> a" "a \<le> 100"
    by (cases x) (auto simp: isPercent_def)
  have "0 \<le> \<lfloor>a\<rfloor>" "\<lfloor>a\<rfloor> \<le> 100"
    using a(3,4) by (simp_all add: zero_le_floor floor_le_iff)
  then show "\<exists>k::int. x = Fin (of_int k) \<and> 0 \<le> k \<and> k \<le> 100"
    using a(1,2) by blast
next
  assume "\<exists>k::int. x = Fin (of_int k) \<and> 0 \<le> k \<and> k \<le> 100"
  then show "isPercent x" by (auto simp: isPercent_def)
qed

lemma isPercent_not_NaN: "isPercent x \<Longrightarrow> x \<noteq> NaN"
  by (auto simp: isPercent_def)

lemma percent_compare:
  assumes "x = Fin (of_int i)" "y = Fin (of_int j)" "\<bar>i\<bar> \<le> 100" "\<bar>j\<bar> \<le> 100"
  shows "js_gt0 (js_sub x y) \<longleftrightarrow> j < i"
proof -
  have "\<bar>i - j\<bar> < 2 ^ 53" using assms(3,4) by simp
  from fl_exact[OF isDouble_of_int[OF this]]
  have "js_sub x y = Fin (of_int (i - j))"
    by (simp add: js_sub_def assms(1,2))
  then show ?thesis by (simp add: js_gt0_def)
qed


lemma takeWhile_all: "list_all P xs \<Longrightarrow> takeWhile P xs = xs"
  by (induction xs) simp_all

lemma dropWhile_all: "list_all P xs \<Longrightarrow> dropWhile P xs = []"
  by (induction xs) simp_all

lemma isDigit_chars:
  assumes "isDigit c"
  shows "c \<noteq> CHR ''+''" "c \<noteq> CHR ''-''" "c \<noteq> CHR ''I''" "c \<noteq> CHR ''x''" "c \<noteq> CHR ''X''"
    "c \<noteq> CHR ''o''" "c \<noteq> CHR ''O''" "c \<noteq> CHR ''b''" "c \<noteq> CHR ''B''"
  using assms by (auto simp: isDigit_def)

lemma nonDecimalLiteral_digits: "list_all isDigit t \<Longrightarrow> nonDecimalLiteral t = None"
proof (cases t)
  case Nil
  then show ?thesis by (simp add: nonDecimalLiteral_def)
next
  case (Cons c0 r)
  assume d: "list_all isDigit t"
  show ?thesis
  proof (cases r)
    case Nil
    then show ?thesis using Cons by (simp add: nonDecimalLiteral_def)
  next
    case (Cons c1 ds)
    then have "isDigit c1" using d \<open>t = c0 # r\<close> by simp
    from isDigit_chars(4-9)[OF this] show ?thesis
      using Cons \<open>t = c0 # r\<close> by (simp add: nonDecimalLiteral_def)
  qed
qed

lemma digitsValue_Nil: "digitsValue [] = 0"
  by (simp add: digitsValue_def)

lemma unsignedDecimal_digits:
  assumes "t \<noteq> []" "list_all isDigit t"
  shows "unsignedDecimal t = fl (of_nat (digitsValue t))"
proof -
  obtain c r where t: "t = c # r" using assms(1) by (cases t) auto
  then have "isDigit c" using assms(2) by simp
  then have "t \<noteq> ''Infinity''" using t isDigit_chars(3) by auto
  then show ?thesis
    using assms by (simp add: unsignedDecimal_def Let_def takeWhile_all dropWhile_all
        exponentPart_def digitsValue_Nil)
qed

lemma Number_digits:
  assumes "a \<noteq> []" "list_all isDigit a" "digitsValue a < 2 ^ 53"
  shows "Number a = Fin (of_nat (digitsValue a))"
proof -
  obtain c r where a: "a = c # r" using assms(1) by (cases a) auto
  then have c: "isDigit c" using assms(2) by simp
  have "strDecimal a = unsignedDecimal a"
    using isDigit_chars(1,2)[OF c] by (simp add: strDecimal_def a)
  then have "Number a = fl (of_nat (digitsValue a))"
    using assms(1,2)
    by (simp add: Number_def Let_def digits_trim nonDecimalLiteral_digits
        unsignedDecimal_digits)
  then show ?thesis using fl_exact[OF isDouble_of_nat[OF assms(3)]] by simp
qed

lemma Number_numToString: "n < 2 ^ 53 \<Longrightarrow> Number (numToString n) = Fin (of_nat n)"
  using Number_digits[OF numToString_not_Nil numToString_digits, of n]
  by (simp add: digitsValue_numToString)

lemma split_grade:
  "split CHR ''/'' (numToString k @ ''/'' @ numToString n) = [numToString k, numToString n]"
proof -
  have a: "CHR ''/'' \<notin> set (numToString k)" and b: "CHR ''/'' \<notin> set (numToString n)"
    using numToString_digits isDigit_not_slash by (auto simp: list_all_iff)
  show ?thesis using split_append_sep[OF a, of "numToString n"] split_no_sep[OF b] by simp
qed

lemma parse_grade:
  "k < 2 ^ 53 \<Longrightarrow> n < 2 ^ 53 \<Longrightarrow>
   map Number (split CHR ''/'' (numToString k @ ''/'' @ numToString n)) =
   [Fin (of_nat k), Fin (of_nat n)]"
  by (simp only: split_grade list.map Number_numToString)

text \<open>
  The default identifiers of the authoring tool begin with \<^verbatim>\<open>q_\<close> and name no member of
  \<^verbatim>\<open>Object.prototype\<close>.
\<close>

lemma safeId_generated: "safeId (''q_'' @ s)"
  by (simp add: safeId_def objectPrototypeKeys_def)

lemma getProp_safe:
  "safeId key \<Longrightarrow> getProp obj key = (case obj key of Some v \<Rightarrow> Own v | None \<Rightarrow> Undefined)"
  by (simp add: getProp_def safeId_def)

lemma setProp_safe: "safeId key \<Longrightarrow> setProp obj key v = obj(key \<mapsto> v)"
  by (auto simp: setProp_def safeId_def objectPrototypeKeys_def)

section \<open>The multi-select answer toggle\<close>

lemma isLetter_props: "isLetter l \<Longrightarrow> l \<noteq> [] \<and> CHR '','' \<notin> set l"
  by (auto simp: isLetter_def split: list.splits)

lemma mset_remove_append:
  "distinct xs \<Longrightarrow> l \<in> set xs \<Longrightarrow> mset (filter (\<lambda>x. x \<noteq> l) xs @ [l]) = mset xs"
proof (induction xs)
  case Nil
  then show ?case by simp
next
  case (Cons a xs)
  show ?case
  proof (cases "a = l")
    case True
    with Cons.prems have "l \<notin> set xs" by simp
    then show ?thesis using True by (simp add: filter_neq_id)
  next
    case False
    with Cons have "mset (filter (\<lambda>x. x \<noteq> l) xs @ [l]) = mset xs" by simp
    then show ?thesis using False by simp
  qed
qed

lemma toggle_aux_remove:
  fixes xs :: "string list"
  assumes "sorted xs" "distinct xs" "l \<in> set xs"
  shows "sort (filter (\<lambda>x. x \<noteq> l) xs @ [l]) = xs"
  using assms by (intro sort_eqI) (simp_all only: mset_remove_append)

lemma toggle_aux_add:
  fixes xs :: "string list"
  assumes "sorted xs" "l \<notin> set xs"
  shows "filter (\<lambda>x. x \<noteq> l) (sort (xs @ [l])) = xs"
proof -
  have "filter (\<lambda>x. x \<noteq> l) (xs @ [l]) = xs"
    using assms(2) by (simp add: filter_neq_id)
  then have "sort (filter (\<lambda>x. x \<noteq> l) (xs @ [l])) = xs"
    using assms(1) by (simp add: sort_eqI)
  moreover have "filter (\<lambda>x. x \<noteq> l) (sort (xs @ [l])) = sort (filter (\<lambda>x. x \<noteq> l) (xs @ [l]))"
    by (rule filter_sort)
  ultimately show ?thesis by simp
qed

lemma valid_SomeD:
  assumes "validSelection (Some s)"
  shows "s \<noteq> []" "sorted (split CHR '','' s)" "distinct (split CHR '','' s)"
    "list_all isLetter (split CHR '','' s)"
  using assms by (auto simp: validSelection_def Let_def isLetter_def)

lemma valid_join:
  assumes "xs \<noteq> []" "sorted xs" "distinct xs" "list_all isLetter xs"
  shows "validSelection (Some (join '','' xs))" "split CHR '','' (join '','' xs) = xs"
    "join '','' xs \<noteq> []"
proof -
  have ne: "\<forall>x\<in>set xs. x \<noteq> []" and nc: "\<forall>x\<in>set xs. CHR '','' \<notin> set x"
    using assms(4) isLetter_props by (auto simp: list_all_iff)
  show sp: "split CHR '','' (join '','' xs) = xs"
    using split_join[OF assms(1) nc] by simp
  show "validSelection (Some (join '','' xs))"
    using assms sp by (simp add: validSelection_def)
  show "join '','' xs \<noteq> []"
    using join_eq_Nil[OF assms(1) ne] .
qed

lemma current_of_valid:
  "validSelection st \<Longrightarrow>
   (case st of None \<Rightarrow> [] | Some s \<Rightarrow> if s = [] then [] else split CHR '','' s) =
   (case st of None \<Rightarrow> [] | Some s \<Rightarrow> split CHR '','' s)"
  by (cases st) (auto dest: valid_SomeD(1))

text \<open>
  Claim C10. From \<^verbatim>\<open>null\<close> or a sorted, duplicate-free, comma-joined string of letters,
  toggling a letter gives \<^verbatim>\<open>null\<close> or such a string again, and toggling the same letter a
  second time gives back the selection the first toggle started from.
\<close>

theorem toggle_preserves_encoding:
  assumes v: "validSelection st" and l: "isLetter l"
  shows "validSelection (toggleMcqCorrectAnswer st l) \<and>
         toggleMcqCorrectAnswer (toggleMcqCorrectAnswer st l) l = st"
proof -
  define xs where "xs = (case st of None \<Rightarrow> [] | Some s \<Rightarrow> split CHR '','' s)"
  have sx: "sorted xs" and dx: "distinct xs" and lx: "list_all isLetter xs"
    using v by (auto simp: xs_def dest: valid_SomeD split: option.splits)
  have st_eq: "st = (if xs = [] then None else Some (join '','' xs))"
  proof (cases st)
    case None
    then show ?thesis by (simp add: xs_def)
  next
    case (Some s)
    then have "xs = split CHR '','' s" by (simp add: xs_def)
    then show ?thesis using Some join_split[of "CHR '',''" s] split_not_Nil[of "CHR '',''" s]
      by simp
  qed
  have cur: "(case st of None \<Rightarrow> [] | Some s \<Rightarrow> if s = [] then [] else split CHR '','' s) = xs"
    using current_of_valid[OF v] by (simp add: xs_def)
  show ?thesis
  proof (cases "l \<in> set xs")
    case True
    define nx where "nx = filter (\<lambda>x. x \<noteq> l) xs"
    have snx: "sorted nx" "distinct nx" "list_all isLetter nx" "l \<notin> set nx"
      using sx dx lx by (auto simp: nx_def sorted_wrt_filter list_all_iff)
    have t1: "toggleMcqCorrectAnswer st l = (if nx \<noteq> [] then Some (join '','' nx) else None)"
      using True cur snx(1) by (simp add: toggleMcqCorrectAnswer_def Let_def nx_def
          sorted_filter_sort[OF sx])
    have restore: "sort (nx @ [l]) = xs"
      unfolding nx_def by (rule toggle_aux_remove[OF sx dx True])
    have xne: "xs \<noteq> []" using True by auto
    show ?thesis
    proof (cases "nx = []")
      case True
      then have "toggleMcqCorrectAnswer st l = None" using t1 by simp
      moreover have "xs = [l]" using restore True by simp
      then have "toggleMcqCorrectAnswer None l = Some (join '','' xs)"
        by (simp add: toggleMcqCorrectAnswer_def)
      ultimately show ?thesis using st_eq xne by (simp add: validSelection_def)
    next
      case False
      note vj = valid_join[OF False snx(1) snx(2) snx(3)]
      have "toggleMcqCorrectAnswer (Some (join '','' nx)) l = Some (join '','' xs)"
        using vj(2,3) snx(4) restore by (simp add: toggleMcqCorrectAnswer_def)
      then show ?thesis using t1 False vj(1) st_eq xne by simp
    qed
  next
    case False
    define ys where "ys = sort (xs @ [l])"
    have "length ys = Suc (length xs)" by (simp add: ys_def)
    then have yne: "ys \<noteq> []" by auto
    have sy: "sorted ys" "distinct ys" "list_all isLetter ys" "l \<in> set ys"
      using dx lx l False by (auto simp: ys_def list_all_iff)
    note vj = valid_join[OF yne sy(1) sy(2) sy(3)]
    have t1: "toggleMcqCorrectAnswer st l = Some (join '','' ys)"
      using False cur by (simp add: toggleMcqCorrectAnswer_def ys_def)
    have restore: "filter (\<lambda>x. x \<noteq> l) ys = xs"
      unfolding ys_def by (rule toggle_aux_add[OF sx False])
    have "toggleMcqCorrectAnswer (Some (join '','' ys)) l = (if xs \<noteq> [] then Some (join '','' xs) else None)"
      using vj(2,3) sy(4) restore sorted_filter_sort[OF sy(1), of "\<lambda>x. x \<noteq> l"]
      by (simp add: toggleMcqCorrectAnswer_def)
    then show ?thesis using t1 vj(1) st_eq by simp
  qed
qed

theorem toggle_preserves_encoding_witness:
  "validSelection (Some ''A,C'') \<and> isLetter ''B'' \<and>
   toggleMcqCorrectAnswer (Some ''A,C'') ''B'' = Some ''A,B,C'' \<and>
   validSelection (Some ''A,B,C'') \<and>
   toggleMcqCorrectAnswer (Some ''A,B,C'') ''B'' = Some ''A,C''"
proof -
  have v: "validSelection (Some ''A,C'')" by (simp add: validSelection_def isLetter_def)
  have l: "isLetter ''B''" by (simp add: isLetter_def)
  have t: "toggleMcqCorrectAnswer (Some ''A,C'') ''B'' = Some ''A,B,C''"
    by (simp add: toggleMcqCorrectAnswer_def)
  show ?thesis using toggle_preserves_encoding[OF v l] v l t by simp
qed

section \<open>The notes-completion compiler\<close>

lemma matchBracketBody_Some:
  "matchBracketBody cs = Some (inner, rest) \<longleftrightarrow> isInner inner \<and> cs = inner @ '']'' @ rest"
proof (induction cs arbitrary: inner)
  case Nil
  then show ?case by simp
next
  case (Cons c cs)
  show ?case
  proof (cases "c = CHR '']''")
    case True
    then show ?thesis by (cases inner) (auto simp: isInner_def)
  next
    case False
    show ?thesis
    proof (cases "isLineTerminator c")
      case True
      then show ?thesis using False by (cases inner) (auto simp: isInner_def)
    next
      case nl: False
      show ?thesis
      proof (cases inner)
        case Nil
        then show ?thesis using False nl by (auto split: option.splits)
      next
        case (Cons d ds)
        then show ?thesis using False nl Cons.IH[of ds]
          by (auto simp: isInner_def split: option.splits)
      qed
    qed
  qed
qed

lemma startsToken_iff:
  "startsToken (c # cs) \<longleftrightarrow> c = CHR ''['' \<and> matchBracketBody cs \<noteq> None"
proof -
  have "matchBracketBody cs \<noteq> None \<longleftrightarrow> (\<exists>inner rest. matchBracketBody cs = Some (inner, rest))"
    by auto
  then show ?thesis
    unfolding startsToken_def by (auto simp: matchBracketBody_Some)
qed

lemma matchAll_tokens: "bracketTokens s (map snd (matchAllBrackets s))"
proof (induction s rule: matchAllBrackets.induct)
  case 1
  show ?case by (simp add: bt_end)
next
  case (2 c cs)
  show ?case
  proof (cases "c = CHR ''[''")
    case False
    then have "\<not> startsToken (c # cs)" by (simp add: startsToken_iff)
    then show ?thesis using False 2(3) by (simp add: bt_skip)
  next
    case True
    show ?thesis
    proof (cases "matchBracketBody cs")
      case None
      then have "\<not> startsToken (c # cs)" by (simp add: startsToken_iff)
      then show ?thesis using True None 2(1) by (simp add: bt_skip)
    next
      case (Some p)
      obtain inner rest where p: "p = (inner, rest)" by (cases p)
      have m: "isInner inner" "cs = inner @ '']'' @ rest"
        using Some p matchBracketBody_Some by auto
      have "bracketTokens rest (map snd (matchAllBrackets rest))"
        using 2(2)[OF True Some p[symmetric]] .
      then have "bracketTokens (''['' @ inner @ '']'' @ rest)
                   (inner # map snd (matchAllBrackets rest))"
        using m(1) by (rule bt_token[rotated])
      then show ?thesis using True Some p m(2) by simp
    qed
  qed
qed

lemma matchAll_shape:
  "m \<in> set (matchAllBrackets s) \<Longrightarrow> fst m = ''['' @ snd m @ '']''"
proof (induction s rule: matchAllBrackets.induct)
  case 1
  then show ?case by simp
next
  case (2 c cs)
  show ?case
  proof (cases "c = CHR ''[''")
    case False
    then show ?thesis using 2(3) 2(4) by simp
  next
    case True
    show ?thesis
    proof (cases "matchBracketBody cs")
      case None
      then show ?thesis using True 2(1) 2(4) by simp
    next
      case (Some p)
      obtain inner rest where p: "p = (inner, rest)" by (cases p)
      have "m = (''['' @ inner @ '']'', inner) \<or> m \<in> set (matchAllBrackets rest)"
        using 2(4) True Some p by simp
      then show ?thesis using 2(2)[OF True Some p[symmetric]] by auto
    qed
  qed
qed

lemma matchAll_fst:
  "map fst (matchAllBrackets s) = map (\<lambda>t. ''['' @ t @ '']'') (map snd (matchAllBrackets s))"
  by (simp add: matchAll_shape)

lemma tokens_matchAll: "bracketTokens s ts \<Longrightarrow> ts = map snd (matchAllBrackets s)"
proof (induction rule: bracketTokens.induct)
  case bt_end
  show ?case by simp
next
  case (bt_token inner rest ts)
  have "matchBracketBody (inner @ '']'' @ rest) = Some (inner, rest)"
    using bt_token.hyps(1) by (simp add: matchBracketBody_Some)
  then have "matchAllBrackets (''['' @ inner @ '']'' @ rest)
             = (''['' @ inner @ '']'', inner) # matchAllBrackets rest"
    by simp
  then show ?case using bt_token.IH by simp
next
  case (bt_skip c cs ts)
  have "c \<noteq> CHR ''['' \<or> matchBracketBody cs = None"
    using bt_skip.hyps(1) startsToken_iff[of c cs] by blast
  then have "matchAllBrackets (c # cs) = matchAllBrackets cs" by auto
  then show ?case using bt_skip.IH by simp
qed

lemma bracketTokens_iff: "bracketTokens s ts \<longleftrightarrow> ts = map snd (matchAllBrackets s)"
  using tokens_matchAll matchAll_tokens by blast

lemma map_enumerate_snd: "map (\<lambda>x. f (snd x)) (enumerate n xs) = map f xs"
  by (induction xs arbitrary: n) simp_all

lemma map_enumerate_fst: "map (\<lambda>x. f (fst x)) (enumerate n xs) = map f [n..<n + length xs]"
proof -
  have "map (\<lambda>x. f (fst x)) (enumerate n xs) = map f (map fst (enumerate n xs))"
    by (simp only: map_map comp_def)
  then show ?thesis by (simp only: map_fst_enumerate)
qed

lemma compileNotes_fields:
  "map q_correctAnswer (compileNotes mkId content) = map (\<lambda>m. Some (snd m)) (matchAllBrackets content)"
  "map q_text (compileNotes mkId content) = map fst (matchAllBrackets content)"
  "map q_type (compileNotes mkId content) = map (\<lambda>_. QT_NOTES_COMPLETION) (matchAllBrackets content)"
  "length (compileNotes mkId content) = length (matchAllBrackets content)"
  using map_enumerate_snd[of "\<lambda>m. Some (snd m)" 0 "matchAllBrackets content"]
    map_enumerate_snd[of fst 0 "matchAllBrackets content"]
    map_enumerate_snd[of "\<lambda>_. QT_NOTES_COMPLETION" 0 "matchAllBrackets content"]
  by (simp_all add: compileNotes_def case_prod_beta comp_def)

lemma compileNotes_ids:
  "map q_id (compileNotes mkId content) = map mkId [0..<length (matchAllBrackets content)]"
  using map_enumerate_fst[of mkId 0 "matchAllBrackets content"]
  by (simp add: compileNotes_def case_prod_beta comp_def)

lemma compileNotes_answerKey:
  "map answerKey (compileNotes f content) = map answerKey (compileNotes g content)"
  using map_enumerate_snd[of "\<lambda>m. (fst m, QT_NOTES_COMPLETION, Some (snd m))" 0
      "matchAllBrackets content"]
  by (simp add: compileNotes_def answerKey_def case_prod_beta comp_def)

lemma preview_save_agree:
  "map answerKey (g_questions (previewGroup grp)) = map answerKey (g_questions (saveGroup f grp))"
  using compileNotes_answerKey
  by (auto simp: previewGroup_def saveGroup_def split: option.splits)

lemma preview_processed_agree:
  "map (\<lambda>g. map answerKey (g_questions g)) (map previewGroup temp)
   = map (\<lambda>g. map answerKey (g_questions g)) (processedQuestionGroups freshId temp)"
proof -
  have "map (\<lambda>g. map answerKey (g_questions g)) (map previewGroup temp)
        = map (\<lambda>g. map answerKey (g_questions g))
            (map (\<lambda>(gi, grp). saveGroup (freshId gi) grp) (enumerate n temp))" for n
    by (induction temp arbitrary: n) (simp_all add: preview_save_agree)
  then show ?thesis by (simp only: processedQuestionGroups_def)
qed

lemma save_Inr_groups:
  assumes "handleSaveAssignment now freshId sel draft temp editing viewing = Inr call"
  shows "\<exists>a. persistedAssignment (Inr call) = Some a \<and>
             a_questionGroups a = Some (processedQuestionGroups freshId temp)"
  using assms
  by (auto simp: handleSaveAssignment_def Let_def persistedAssignment_def split: if_splits)

text \<open>
  Claim C2. For every content the compiler produces one question per bracketed token, in
  document order: the texts are the tokens with their brackets, the correct answers the
  inner texts, every type is NOTES_COMPLETION, and the token list of a content is
  unique. A content without token gives no question. Two compilations of one content
  agree on count, order, texts and answers, whatever identifiers they draw, and the
  preview and the save compile every group to the same answer key: the question groups
  of the assignment that \<open>getPreviewAssignment\<close> builds and the question groups of the
  assignment that \<open>handleSaveAssignment\<close> persists, for the same draft, have the same
  answer keys, group by group.
\<close>

theorem notes_compiler:
  "(\<exists>ts. bracketTokens content ts \<and> (\<forall>ts'. bracketTokens content ts' \<longrightarrow> ts' = ts) \<and>
         map q_text (compileNotes mkId content) = map (\<lambda>t. ''['' @ t @ '']'') ts \<and>
         map q_correctAnswer (compileNotes mkId content) = map Some ts \<and>
         map q_type (compileNotes mkId content) = map (\<lambda>t. QT_NOTES_COMPLETION) ts \<and>
         map q_id (compileNotes mkId content) = map mkId [0..<length ts]) \<and>
   (bracketTokens content [] \<longrightarrow> compileNotes mkId content = []) \<and>
   map answerKey (compileNotes mkId content) = map answerKey (compileNotes mkId' content) \<and>
   map answerKey (g_questions (previewGroup grp))
     = map answerKey (g_questions (saveGroup mkId grp)) \<and>
   (\<exists>pg. d_questionGroups (getPreviewAssignment draft temp) = Some pg \<and>
      length pg = length temp \<and>
      (\<forall>call. handleSaveAssignment now freshId sel draft temp editing viewing = Inr call \<longrightarrow>
         (\<exists>a sg. persistedAssignment (Inr call) = Some a \<and> a_questionGroups a = Some sg \<and>
            length sg = length temp \<and>
            map (\<lambda>g. map answerKey (g_questions g)) pg
              = map (\<lambda>g. map answerKey (g_questions g)) sg)))"
proof -
  let ?ts = "map snd (matchAllBrackets content)"
  have pv: "d_questionGroups (getPreviewAssignment draft temp) = Some (map previewGroup temp)"
    by (simp add: getPreviewAssignment_def)
  have sv: "\<exists>a sg. persistedAssignment (Inr call) = Some a \<and> a_questionGroups a = Some sg \<and>
            length sg = length temp \<and>
            map (\<lambda>g. map answerKey (g_questions g)) (map previewGroup temp)
              = map (\<lambda>g. map answerKey (g_questions g)) sg"
    if "handleSaveAssignment now freshId sel draft temp editing viewing = Inr call" for call
    using save_Inr_groups[OF that] preview_processed_agree[of temp freshId]
    by (auto simp: processedQuestionGroups_def)
  have agree: "\<exists>pg. d_questionGroups (getPreviewAssignment draft temp) = Some pg \<and>
      length pg = length temp \<and>
      (\<forall>call. handleSaveAssignment now freshId sel draft temp editing viewing = Inr call \<longrightarrow>
         (\<exists>a sg. persistedAssignment (Inr call) = Some a \<and> a_questionGroups a = Some sg \<and>
            length sg = length temp \<and>
            map (\<lambda>g. map answerKey (g_questions g)) pg
              = map (\<lambda>g. map answerKey (g_questions g)) sg))"
    using pv sv by (intro exI[of _ "map previewGroup temp"]) simp
  have "bracketTokens content ?ts" by (rule matchAll_tokens)
  moreover have "\<forall>ts'. bracketTokens content ts' \<longrightarrow> ts' = ?ts"
    using tokens_matchAll by blast
  moreover have "map q_text (compileNotes mkId content) = map (\<lambda>t. ''['' @ t @ '']'') ?ts"
    by (simp only: compileNotes_fields matchAll_fst)
  moreover have "map q_correctAnswer (compileNotes mkId content) = map Some ?ts"
    by (simp add: compileNotes_fields)
  moreover have "map q_type (compileNotes mkId content) = map (\<lambda>t. QT_NOTES_COMPLETION) ?ts"
    by (simp add: compileNotes_fields)
  moreover have "map q_id (compileNotes mkId content) = map mkId [0..<length ?ts]"
    by (simp add: compileNotes_ids)
  moreover have "bracketTokens content [] \<longrightarrow> compileNotes mkId content = []"
    using tokens_matchAll[of content "[]"] compileNotes_fields(4)[of mkId content] by auto
  ultimately show ?thesis
    using compileNotes_answerKey preview_save_agree agree by blast
qed

theorem notes_compiler_witness:
  "bracketTokens ''The [sun] rises in the [east].'' [''sun'', ''east''] \<and>
   compileNotes (exFreshId 0) ''The [sun] rises in the [east].'' =
     [\<lparr>q_id = ''q_1700000000000_0x0'', q_text = ''[sun]'', q_type = QT_NOTES_COMPLETION,
        q_options = None, q_correctAnswer = Some ''sun'', q_maxSelection = None\<rparr>,
      \<lparr>q_id = ''q_1700000000000_0x1'', q_text = ''[east]'', q_type = QT_NOTES_COMPLETION,
        q_options = None, q_correctAnswer = Some ''east'', q_maxSelection = None\<rparr>] \<and>
   bracketTokens ''no blanks here'' [] \<and>
   compileNotes (exFreshId 0) ''no blanks here'' = [] \<and>
   map answerKey (g_questions (previewGroup exNotes)) = [(''[sun]'', QT_NOTES_COMPLETION, Some ''sun''),
      (''[east]'', QT_NOTES_COMPLETION, Some ''east'')] \<and>
   map_option (map (\<lambda>g. map answerKey (g_questions g)))
     (d_questionGroups (getPreviewAssignment exDraft [exGroup1, exNotes]))
   = Some [[(''The author visited Rome.'', QT_TRUE_FALSE_NG, Some ''NOT GIVEN'')],
           [(''[sun]'', QT_NOTES_COMPLETION, Some ''sun''),
            (''[east]'', QT_NOTES_COMPLETION, Some ''east'')]] \<and>
   map_option (map_option (map (\<lambda>g. map answerKey (g_questions g))) \<circ> a_questionGroups)
     (persistedAssignment
        (handleSaveAssignment ''1700000000000'' exFreshId (Some ''c1'') exDraft
           [exGroup1, exNotes] None None))
   = Some (Some [[(''The author visited Rome.'', QT_TRUE_FALSE_NG, Some ''NOT GIVEN'')],
                 [(''[sun]'', QT_NOTES_COMPLETION, Some ''sun''),
                  (''[east]'', QT_NOTES_COMPLETION, Some ''east'')]])"
proof -
  obtain call where c: "handleSaveAssignment ''1700000000000'' exFreshId (Some ''c1'') exDraft
      [exGroup1, exNotes] None None = Inr call"
    by (simp add: handleSaveAssignment_def Let_def truthy_def exDraft_def)
  have pk: "map_option (map (\<lambda>g. map answerKey (g_questions g)))
     (d_questionGroups (getPreviewAssignment exDraft [exGroup1, exNotes]))
   = Some [[(''The author visited Rome.'', QT_TRUE_FALSE_NG, Some ''NOT GIVEN'')],
           [(''[sun]'', QT_NOTES_COMPLETION, Some ''sun''),
            (''[east]'', QT_NOTES_COMPLETION, Some ''east'')]]"
    by code_simp
  have m1: "matchAllBrackets ''The [sun] rises in the [east].'' = [(''[sun]'', ''sun''), (''[east]'', ''east'')]"
    by code_simp
  have m2: "matchAllBrackets ''no blanks here'' = []"
    by code_simp
  have t1: "bracketTokens ''The [sun] rises in the [east].'' [''sun'', ''east'']"
    using matchAll_tokens[of "''The [sun] rises in the [east].''"] unfolding m1 by simp
  have t2: "bracketTokens ''no blanks here'' []"
    using matchAll_tokens[of "''no blanks here''"] unfolding m2 by simp
  have c1: "compileNotes (exFreshId 0) ''The [sun] rises in the [east].'' =
     [\<lparr>q_id = ''q_1700000000000_0x0'', q_text = ''[sun]'', q_type = QT_NOTES_COMPLETION,
        q_options = None, q_correctAnswer = Some ''sun'', q_maxSelection = None\<rparr>,
      \<lparr>q_id = ''q_1700000000000_0x1'', q_text = ''[east]'', q_type = QT_NOTES_COMPLETION,
        q_options = None, q_correctAnswer = Some ''east'', q_maxSelection = None\<rparr>]"
    by code_simp
  have p: "map answerKey (g_questions (previewGroup exNotes)) = [(''[sun]'', QT_NOTES_COMPLETION, Some ''sun''),
      (''[east]'', QT_NOTES_COMPLETION, Some ''east'')]"
    by code_simp
  note nc = notes_compiler[of "''no blanks here''" "exFreshId 0" "exFreshId 1" exNotes exDraft
      "[exGroup1, exNotes]" "''1700000000000''" exFreshId "Some ''c1''" None None]
  from nc obtain pg a sg where
    s: "d_questionGroups (getPreviewAssignment exDraft [exGroup1, exNotes]) = Some pg"
       "persistedAssignment (Inr call) = Some a" "a_questionGroups a = Some sg"
       "map (\<lambda>g. map answerKey (g_questions g)) pg = map (\<lambda>g. map answerKey (g_questions g)) sg"
    using c by blast
  have sk: "map_option (map_option (map (\<lambda>g. map answerKey (g_questions g))) \<circ> a_questionGroups)
     (persistedAssignment
        (handleSaveAssignment ''1700000000000'' exFreshId (Some ''c1'') exDraft
           [exGroup1, exNotes] None None))
   = Some (Some [[(''The author visited Rome.'', QT_TRUE_FALSE_NG, Some ''NOT GIVEN'')],
                 [(''[sun]'', QT_NOTES_COMPLETION, Some ''sun''),
                  (''[east]'', QT_NOTES_COMPLETION, Some ''east'')]])"
    using pk s unfolding c by simp
  have e: "compileNotes (exFreshId 0) ''no blanks here'' = []"
    using nc t2 by blast
  show ?thesis
    using t1 t2 c1 p pk sk e by blast
qed

text \<open>A dot matches no line terminator: brackets across a line break are no token.\<close>

lemma bracket_across_lines:
  "matchAllBrackets (''[a'' @ [CHR 0x0A] @ ''b] [c]'') = [(''[c]'', ''c'')]"
  by code_simp

section \<open>Recompilation at save time\<close>

lemma processed_length:
  "length (processedQuestionGroups freshId temp) = length temp"
  by (simp add: processedQuestionGroups_def)

lemma processed_nth:
  "i < length temp \<Longrightarrow> processedQuestionGroups freshId temp ! i = saveGroup (freshId i) (temp ! i)"
  by (simp add: processedQuestionGroups_def nth_enumerate_eq)

lemma saveGroup_cases:
  "saveGroup f grp =
     (if g_type grp = GT_NOTES_COMPLETION \<and> truthy (g_content grp)
      then grp\<lparr>g_questions := compileNotes f (orElse (g_content grp) [])\<rparr>
      else grp)"
  by (auto simp: saveGroup_def truthy_def orElse_def split: option.splits)

text \<open>
  Claim C5, as amended. When a save goes through, the saved assignment has one group per
  draft group, in order. A NOTES_COMPLETION group with a non-empty content has its
  questions replaced by the fresh output of the compiler over the content, its stored
  questions discarded; a NOTES_COMPLETION group whose content is empty or absent is
  saved as it is, stored questions included; so is a group of any other type.
\<close>

theorem save_recompiles_notes:
  assumes "handleSaveAssignment now freshId sel draft temp editing viewing = Inr call"
  shows "\<exists>a gs. persistedAssignment (Inr call) = Some a \<and> a_questionGroups a = Some gs \<and>
           length gs = length temp \<and>
           (\<forall>i<length temp.
              (g_type (temp ! i) = GT_NOTES_COMPLETION \<and> truthy (g_content (temp ! i)) \<longrightarrow>
                 gs ! i = (temp ! i)\<lparr>g_questions :=
                            compileNotes (freshId i) (orElse (g_content (temp ! i)) [])\<rparr>) \<and>
              (g_type (temp ! i) = GT_NOTES_COMPLETION \<and> \<not> truthy (g_content (temp ! i)) \<longrightarrow>
                 gs ! i = temp ! i) \<and>
              (g_type (temp ! i) \<noteq> GT_NOTES_COMPLETION \<longrightarrow> gs ! i = temp ! i))"
proof -
  obtain a where a: "persistedAssignment (Inr call) = Some a"
    "a_questionGroups a = Some (processedQuestionGroups freshId temp)"
    using save_Inr_groups[OF assms] by blast
  show ?thesis
    using a by (auto simp: processed_length processed_nth saveGroup_cases)
qed

theorem save_recompiles_notes_witness:
  "map_option (map_option (map (map answerKey \<circ> g_questions)) \<circ> a_questionGroups)
     (persistedAssignment
        (handleSaveAssignment ''1700000000000'' exFreshId (Some ''c1'') exDraft
           [exGroup1, exNotes] None None))
   = Some (Some [[(''The author visited Rome.'', QT_TRUE_FALSE_NG, Some ''NOT GIVEN'')],
                 [(''[sun]'', QT_NOTES_COMPLETION, Some ''sun''),
                  (''[east]'', QT_NOTES_COMPLETION, Some ''east'')]])"
proof -
  obtain call where c: "handleSaveAssignment ''1700000000000'' exFreshId (Some ''c1'') exDraft
      [exGroup1, exNotes] None None = Inr call"
    by (simp add: handleSaveAssignment_def Let_def truthy_def exDraft_def)
  have k: "map answerKey (compileNotes (exFreshId 1) (orElse (g_content exNotes) []))
      = [(''[sun]'', QT_NOTES_COMPLETION, Some ''sun''), (''[east]'', QT_NOTES_COMPLETION, Some ''east'')]"
    by code_simp
  have g1: "g_type exGroup1 \<noteq> GT_NOTES_COMPLETION"
    "map answerKey (g_questions exGroup1) = [(''The author visited Rome.'', QT_TRUE_FALSE_NG, Some ''NOT GIVEN'')]"
    by code_simp+
  have g2: "g_type exNotes = GT_NOTES_COMPLETION \<and> truthy (g_content exNotes)"
    by code_simp
  from save_recompiles_notes[OF c] obtain a gs where
    a: "persistedAssignment (Inr call) = Some a" "a_questionGroups a = Some gs"
       "length gs = 2" "gs ! 0 = exGroup1"
       "gs ! 1 = exNotes\<lparr>g_questions := compileNotes (exFreshId 1) (orElse (g_content exNotes) [])\<rparr>"
    using g1(1) g2 by (auto simp: nth_Cons')
  then have "gs = [exGroup1, exNotes\<lparr>g_questions := compileNotes (exFreshId 1) (orElse (g_content exNotes) [])\<rparr>]"
    by (cases gs; cases "tl gs") auto
  then show ?thesis using a c k g1(2) by simp
qed

text \<open>
  Claim C5 as stated fails on a notes group whose content was cleared: the compiler gives
  no question for the empty content, and the saved group still has its stored question.
\<close>

theorem save_recompiles_notes_counterexample:
  "g_type exNotesCleared = GT_NOTES_COMPLETION \<and>
   compileNotes (exFreshId 0) (orElse (g_content exNotesCleared) []) = [] \<and>
   map_option (map_option (map g_questions) \<circ> a_questionGroups)
     (persistedAssignment
        (handleSaveAssignment ''1700000000000'' exFreshId (Some ''c1'') exDraft
           [exNotesCleared] None None))
   = Some (Some [[exQ3]])"
  by code_simp

section \<open>Validation at save time\<close>

text \<open>
  Claim C7, as amended. The save alerts with a message and hands nothing to persistence
  when the title or the due date is missing or empty, when no class identifier is
  present (neither a selected class nor one in the draft), or when a WRITING draft has
  no prompt. Otherwise exactly one entity is handed to persistence, by the update
  callback when an assignment is being edited and by the add callback otherwise, with
  the title, due date, type and class identifier of the draft.
\<close>

theorem save_validation:
  "(let r = handleSaveAssignment now freshId sel draft temp editing viewing
    in (saveRejected sel draft \<longrightarrow>
          (\<exists>msg. r = Inl msg \<and> msg \<noteq> []) \<and> persistedAssignment r = None) \<and>
       (\<not> saveRejected sel draft \<longrightarrow>
          (\<exists>a. r = (if truthy editing then Inr (OnUpdateAssignment a)
                     else Inr (OnAddAssignment a)) \<and>
               persistedAssignment r = Some a \<and>
               Some (a_title a) = d_title draft \<and> Some (a_dueDate a) = d_dueDate draft \<and>
               Some (a_classId a) = (if truthy sel then sel else d_classId draft) \<and>
               a_type a = d_type draft \<and>
               a_id a = orElse editing now)))"
  by (auto simp: handleSaveAssignment_def Let_def saveRejected_def persistedAssignment_def
      truthy_def orElse_def split: option.splits)

theorem save_validation_witness:
  "saveRejected (Some ''c1'') (exDraft\<lparr>d_dueDate := None\<rparr>) \<and>
   persistedAssignment (handleSaveAssignment ''1700000000000'' exFreshId (Some ''c1'')
      (exDraft\<lparr>d_dueDate := None\<rparr>) [exGroup1] None None) = None \<and>
   saveRejected None exDraft \<and>
   persistedAssignment (handleSaveAssignment ''1700000000000'' exFreshId None
      exDraft [exGroup1] None None) = None \<and>
   saveRejected (Some ''c1'') (exDraft\<lparr>d_type := Some WRITING\<rparr>) \<and>
   persistedAssignment (handleSaveAssignment ''1700000000000'' exFreshId (Some ''c1'')
      (exDraft\<lparr>d_type := Some WRITING\<rparr>) [] None None) = None \<and>
   \<not> saveRejected (Some ''c1'') exDraft \<and>
   map_option a_id (persistedAssignment (handleSaveAssignment ''1700000000000'' exFreshId
      (Some ''c1'') exDraft [exGroup1] None None)) = Some ''1700000000000''"
proof -
  have r1: "saveRejected (Some ''c1'') (exDraft\<lparr>d_dueDate := None\<rparr>)" by code_simp
  have r2: "saveRejected None exDraft" by code_simp
  have r3: "saveRejected (Some ''c1'') (exDraft\<lparr>d_type := Some WRITING\<rparr>)" by code_simp
  have r4: "\<not> saveRejected (Some ''c1'') exDraft" by code_simp
  have o: "orElse None ''1700000000000'' = ''1700000000000''" by code_simp
  show ?thesis
    using save_validation[of "''1700000000000''" exFreshId "Some ''c1''"
        "exDraft\<lparr>d_dueDate := None\<rparr>" "[exGroup1]" None None]
      save_validation[of "''1700000000000''" exFreshId None exDraft "[exGroup1]" None None]
      save_validation[of "''1700000000000''" exFreshId "Some ''c1''"
        "exDraft\<lparr>d_type := Some WRITING\<rparr>" "[]" None None]
      save_validation[of "''1700000000000''" exFreshId "Some ''c1''" exDraft "[exGroup1]"
        None None]
      r1 r2 r3 r4 o
    unfolding Let_def by auto
qed

text \<open>
  Claim C7 as stated fails on a class identifier that no existing class has: the handler
  tests that an identifier is present, not that it resolves, and the assignment is saved.
\<close>

theorem save_validation_counterexample:
  "\<not> resolvesClass [] (Some ''ghost'') \<and>
   \<not> resolvesClass [\<lparr>c_id = ''c1'', c_name = ''IELTS A'', c_schedule = [], c_description = None\<rparr>]
       (Some ''ghost'') \<and>
   map_option a_classId (persistedAssignment (handleSaveAssignment ''1700000000000'' exFreshId
      (Some ''ghost'') exDraft [exGroup1] None None)) = Some ''ghost''"
  by code_simp

section \<open>Changing the type of a question group\<close>

text \<open>
  Claim C6, as amended. Changing the type of the group at an index of the draft sets its
  type and the instruction of the new type, and keeps its heading list and its match
  options as they were; only an absent heading list is initialised to empty when the new
  type is MATCHING_HEADINGS, and only absent match options when the new type is
  MATCHING_FEATURES or MATCHING_SENTENCE_ENDINGS. Questions, content, title,
  identifier and the other groups are unchanged.
\<close>

theorem type_change_keeps_lists:
  assumes "index < length groups"
  shows "\<exists>groups'. handleGroupTypeChange groups index newType = Inr groups' \<and>
     length groups' = length groups \<and>
     (\<forall>j<length groups. j \<noteq> index \<longrightarrow> groups' ! j = groups ! j) \<and>
     g_type (groups' ! index) = newType \<and>
     g_instruction (groups' ! index)
       = (case QUESTION_TYPE_INSTRUCTIONS newType of Some s \<Rightarrow> s | None \<Rightarrow> []) \<and>
     g_headingList (groups' ! index)
       = (if newType = GT_MATCHING_HEADINGS \<and> g_headingList (groups ! index) = None
          then Some [] else g_headingList (groups ! index)) \<and>
     g_matchOptions (groups' ! index)
       = (if (newType = GT_MATCHING_FEATURES \<or> newType = GT_MATCHING_SENTENCE_ENDINGS)
             \<and> g_matchOptions (groups ! index) = None
          then Some [] else g_matchOptions (groups ! index)) \<and>
     g_questions (groups' ! index) = g_questions (groups ! index) \<and>
     g_content (groups' ! index) = g_content (groups ! index) \<and>
     g_title (groups' ! index) = g_title (groups ! index) \<and>
     g_id (groups' ! index) = g_id (groups ! index)"
  using assms by (simp add: handleGroupTypeChange_def Let_def)

theorem type_change_keeps_lists_witness:
  "(0::nat) < length [exGroup2, exGroup1] \<and> (1::nat) < length [exGroup2, exGroup1] \<and>
   map_sum id (map g_headingList) (handleGroupTypeChange [exGroup2, exGroup1] 0 GT_MCQ)
     = Inr [Some [''Origins'', ''Decline''], None] \<and>
   map_sum id (map g_headingList)
     (handleGroupTypeChange [exGroup2, exGroup1] 1 GT_MATCHING_HEADINGS)
     = Inr [Some [''Origins'', ''Decline''], Some []] \<and>
   map_sum id (map g_type) (handleGroupTypeChange [exGroup2, exGroup1] 1 GT_MATCHING_HEADINGS)
     = Inr [GT_MIXED, GT_MATCHING_HEADINGS]"
proof -
  have l0: "(0::nat) < length [exGroup2, exGroup1]" and l1: "(1::nat) < length [exGroup2, exGroup1]"
    by simp_all
  have e: "map_sum id (map g_headingList) (handleGroupTypeChange [exGroup2, exGroup1] 0 GT_MCQ)
     = Inr [Some [''Origins'', ''Decline''], None]"
    "map_sum id (map g_headingList)
     (handleGroupTypeChange [exGroup2, exGroup1] 1 GT_MATCHING_HEADINGS)
     = Inr [Some [''Origins'', ''Decline''], Some []]"
    "map_sum id (map g_type) (handleGroupTypeChange [exGroup2, exGroup1] 1 GT_MATCHING_HEADINGS)
     = Inr [GT_MIXED, GT_MATCHING_HEADINGS]"
    by code_simp+
  show ?thesis
    using type_change_keeps_lists[OF l0, of GT_MCQ]
      type_change_keeps_lists[OF l1, of GT_MATCHING_HEADINGS] e l0 l1
    by simp
qed

text \<open>
  Claim C6 as stated fails on a group that has headings and options: after a change of
  type, to MCQ or to MATCHING_HEADINGS, both lists still hold the old data.
\<close>

theorem type_change_counterexample:
  "g_headingList exGroup2 = Some [''Origins'', ''Decline''] \<and>
   g_matchOptions exGroup2 = Some [''Smith''] \<and>
   map_sum id (map g_headingList) (handleGroupTypeChange [exGroup2] 0 GT_MCQ)
     = Inr [Some [''Origins'', ''Decline'']] \<and>
   map_sum id (map g_matchOptions) (handleGroupTypeChange [exGroup2] 0 GT_MCQ)
     = Inr [Some [''Smith'']] \<and>
   map_sum id (map g_headingList) (handleGroupTypeChange [exGroup2] 0 GT_MATCHING_HEADINGS)
     = Inr [Some [''Origins'', ''Decline'']]"
  by code_simp

section \<open>The comparison rule of the auto-grader\<close>

lemma sameUpToCase_iff: "sameUpToCase s c \<longleftrightarrow> toLowerCase s = toLowerCase c"
  by (simp add: sameUpToCase_def toLowerCase_def list_all2_map1 list_all2_map2
      list_all2_eq)

lemma isMultiSelect_iff: "isMultiSelect q \<longleftrightarrow> q_type q = QT_MCQ \<and> maxSelectionOr1 q > 1"
  by (auto simp: isMultiSelect_def maxSelectionOr1_def split: option.splits)

lemma trimmedAnswer_eq:
  "trimmedAnswer answers key =
     (if getProp answers key = Inherited then Inl TypeError
      else Inr (trim (orElse (answers key) [])))"
  by (simp add: trimmedAnswer_def getProp_def split: option.splits)

lemma gradeQuestion_eq:
  "gradeQuestion answers q =
     (if getProp answers (q_id q) = Inherited then Inl TypeError
      else Inr (ruleResult answers q))"
  by (simp add: gradeQuestion_def trimmedAnswer_eq ruleResult_def Let_def specIsCorrect_def
      isMultiSelect_iff isTextFill_def sameUpToCase_iff sortedJoin_def)

text \<open>
  Claim C1. The grader stores for a question the trimmed answer and the trimmed key, and
  decides \<open>isCorrect\<close> by the type: for MCQ with \<open>maxSelection > 1\<close> both strings are
  split on commas, each element trimmed, sorted, rejoined and compared; for
  FILL_IN_BLANKS and NOTES_COMPLETION the strings are compared up to case; for every
  other type they are compared exactly. That is the result of every question that is
  graded; grading stops with a TypeError, and no submission is made, exactly when the
  answers have no entry for the identifier of the question and the identifier names a
  member of \<^verbatim>\<open>Object.prototype\<close>. The witness runs the rule on \<open>not given\<close> against
  \<open>NOT GIVEN\<close> (incorrect) and on \<open>D,A\<close> against \<open>A,D\<close> (correct).
\<close>

theorem grading_rule:
  "gradeQuestion answers q =
     (let s = trim (orElse (answers (q_id q)) []);
          c = trim (orElse (q_correctAnswer q) [])
      in if answers (q_id q) = None \<and> q_id q \<in> set objectPrototypeKeys then Inl TypeError
         else Inr \<lparr>r_questionId = q_id q, r_isCorrect = specIsCorrect q s c,
                   r_studentAnswer = s, r_correctAnswer = c\<rparr>)"
proof -
  have "getProp answers (q_id q) = Inherited \<longleftrightarrow>
        answers (q_id q) = None \<and> q_id q \<in> set objectPrototypeKeys"
    by (simp add: getProp_def split: option.splits)
  then show ?thesis
    by (simp only: gradeQuestion_eq ruleResult_def Let_def)
qed

theorem grading_rule_witness:
  "gradeQuestion exAnswers exQ1 =
     Inr \<lparr>r_questionId = ''q1'', r_isCorrect = False, r_studentAnswer = ''not given'',
          r_correctAnswer = ''NOT GIVEN''\<rparr> \<and>
   gradeQuestion exAnswers exQ2 =
     Inr \<lparr>r_questionId = ''q2'', r_isCorrect = True, r_studentAnswer = ''D,A'',
          r_correctAnswer = ''A,D''\<rparr> \<and>
   gradeQuestion [''q3'' \<mapsto> ''paris''] exQ3 =
     Inr \<lparr>r_questionId = ''q3'', r_isCorrect = True, r_studentAnswer = ''paris'',
          r_correctAnswer = ''Paris''\<rparr>"
proof -
  have e1: "trim (orElse (exAnswers ''q1'') []) = ''not given''"
    "trim (orElse (q_correctAnswer exQ1) []) = ''NOT GIVEN''"
    "specIsCorrect exQ1 ''not given'' ''NOT GIVEN'' = False"
    "(exAnswers ''q1'' = None \<and> ''q1'' \<in> set objectPrototypeKeys) = False"
    "q_id exQ1 = ''q1''"
    by code_simp+
  have e2: "trim (orElse (exAnswers ''q2'') []) = ''D,A''"
    "trim (orElse (q_correctAnswer exQ2) []) = ''A,D''"
    "specIsCorrect exQ2 ''D,A'' ''A,D'' = True"
    "(exAnswers ''q2'' = None \<and> ''q2'' \<in> set objectPrototypeKeys) = False"
    "q_id exQ2 = ''q2''"
    by code_simp+
  have e3: "trim (orElse ([''q3'' \<mapsto> ''paris''] ''q3'') []) = ''paris''"
    "trim (orElse (q_correctAnswer exQ3) []) = ''Paris''"
    "specIsCorrect exQ3 ''paris'' ''Paris'' = True"
    "([''q3'' \<mapsto> ''paris''] ''q3'' = None \<and> ''q3'' \<in> set objectPrototypeKeys) = False"
    "q_id exQ3 = ''q3''"
    by code_simp+
  show ?thesis
    using grading_rule[of exAnswers exQ1] grading_rule[of exAnswers exQ2]
      grading_rule[of "[''q3'' \<mapsto> ''paris'']" exQ3]
    unfolding Let_def e1 e2 e3 by simp
qed

lemma sortedJoin_eq_iff: "sortedJoin s = sortedJoin c \<longleftrightarrow> sameSelection s c"
proof -
  define xs where "xs = map trim (split CHR '','' s)"
  define ys where "ys = map trim (split CHR '','' c)"
  have ne: "sort xs \<noteq> []" "sort ys \<noteq> []"
    using split_not_Nil[of "CHR '',''" s] split_not_Nil[of "CHR '',''" c]
    by (auto simp: xs_def ys_def dest!: arg_cong[where f = length])
  have nc: "\<forall>x\<in>set (sort xs). CHR '','' \<notin> set x" "\<forall>y\<in>set (sort ys). CHR '','' \<notin> set y"
    using split_pieces_no_sep set_trim by (fastforce simp: xs_def ys_def)+
  have "join '','' (sort xs) = join '','' (sort ys) \<longleftrightarrow> sort xs = sort ys"
    using join_inject[OF ne nc] by auto
  also have "\<dots> \<longleftrightarrow> mset xs = mset ys"
    by (metis mset_sort properties_for_sort sorted_sort)
  finally show ?thesis by (simp add: sortedJoin_def sameSelection_def xs_def ys_def)
qed

lemma sortedJoin_Nil: "sortedJoin [] = []"
  by (simp add: sortedJoin_def trim_Nil)

lemma sortedJoin_eq_Nil:
  assumes "trim c = c" "sortedJoin c = []"
  shows "c = []"
proof -
  define xs where "xs = map trim (split CHR '','' c)"
  have "sort xs = [] \<or> sort xs = [[]]"
    using assms(2) join_Nil_cases[of "'',''" "sort xs"] by (simp add: sortedJoin_def xs_def)
  moreover have "xs \<noteq> []" using split_not_Nil[of "CHR '',''" c] by (simp add: xs_def)
  ultimately have s1: "sort xs = [[]]" by (auto dest!: arg_cong[where f = length])
  then have "length xs = 1" by (auto dest!: arg_cong[where f = length])
  then obtain x where x: "xs = [x]" by (cases xs) auto
  with s1 have "x = []" by simp
  with x obtain y where y: "split CHR '','' c = [y]" "trim y = []"
    by (auto simp: xs_def)
  have "c = y" using join_split[of "CHR '',''" c] y(1) by simp
  then show ?thesis using y(2) assms(1) by simp
qed

lemma specIsCorrect_unanswered:
  "specIsCorrect q [] (trim c0) \<longleftrightarrow> trim c0 = []"
proof (cases "isMultiSelect q")
  case True
  have "sortedJoin (trim c0) = [] \<longleftrightarrow> trim c0 = []"
    using sortedJoin_eq_Nil[OF trim_idem] sortedJoin_Nil by auto
  then show ?thesis using True by (auto simp: specIsCorrect_def sortedJoin_Nil)
next
  case False
  then show ?thesis by (auto simp: specIsCorrect_def sameUpToCase_def)
qed

section \<open>Submission\<close>

text \<open>
  The loop of the grader ends with a report and a count exactly when no question meets
  an inherited member; the report is then the result of the assignments
  \<^verbatim>\<open>report[q.id] = ...\<close> in order, and the count is the number of questions that the
  rule marks correct.
\<close>

lemma gradeAll_Inr:
  "\<forall>q\<in>set qs. getProp answers (q_id q) \<noteq> Inherited \<Longrightarrow>
   gradeAll answers qs (rep, n) =
     Inr (foldl (\<lambda>m q. setProp m (q_id q) (ruleResult answers q)) rep qs,
          n + length (filter (\<lambda>q. r_isCorrect (ruleResult answers q)) qs))"
  by (induction qs arbitrary: rep n) (simp_all add: gradeQuestion_eq)

lemma gradeAll_Inl:
  "\<exists>q\<in>set qs. getProp answers (q_id q) = Inherited \<Longrightarrow> gradeAll answers qs st = Inl TypeError"
proof (induction qs arbitrary: st)
  case Nil
  then show ?case by simp
next
  case (Cons a qs)
  obtain rep n where st: "st = (rep, n)" by (cases st)
  show ?case
  proof (cases "getProp answers (q_id a) = Inherited")
    case True
    then show ?thesis by (simp add: st gradeQuestion_eq)
  next
    case False
    then have "\<exists>q\<in>set qs. getProp answers (q_id q) = Inherited" using Cons.prems by auto
    from Cons.IH[OF this] show ?thesis using False by (simp add: st gradeQuestion_eq)
  qed
qed

lemma report_dom:
  "\<forall>q\<in>set qs. safeId (q_id q) \<Longrightarrow>
   dom (foldl (\<lambda>m q. setProp m (q_id q) (f q)) rep qs) = dom rep \<union> q_id ` set qs"
  by (induction qs arbitrary: rep) (auto simp: setProp_safe)

lemma report_keep:
  "k \<notin> q_id ` set qs \<Longrightarrow> foldl (\<lambda>m q. setProp m (q_id q) (f q)) rep qs k = rep k"
  by (induction qs arbitrary: rep) (auto simp: setProp_def)

lemma report_entry:
  "\<forall>q\<in>set qs. safeId (q_id q) \<Longrightarrow> q \<in> set qs \<Longrightarrow>
   \<exists>q'\<in>set qs. q_id q' = q_id q \<and>
     foldl (\<lambda>m q. setProp m (q_id q) (f q)) rep qs (q_id q) = Some (f q')"
proof (induction qs arbitrary: rep q)
  case Nil
  then show ?case by simp
next
  case (Cons a qs)
  have safe: "\<forall>q\<in>set qs. safeId (q_id q)" "safeId (q_id a)" using Cons.prems(1) by simp_all
  show ?case
  proof (cases "q_id q \<in> q_id ` set qs")
    case True
    then obtain p where p: "p \<in> set qs" "q_id p = q_id q" by auto
    from Cons.IH[OF safe(1) p(1), of "setProp rep (q_id a) (f a)"] p(2)
    show ?thesis by auto
  next
    case False
    with Cons.prems(2) have qa: "q = a" by auto
    have "foldl (\<lambda>m q. setProp m (q_id q) (f q)) (setProp rep (q_id a) (f a)) qs (q_id q)
          = setProp rep (q_id a) (f a) (q_id q)"
      by (rule report_keep[OF False])
    also have "\<dots> = Some (f a)" using qa by (simp add: setProp_safe[OF safe(2)])
    finally show ?thesis using qa by simp
  qed
qed

lemma report_entry_distinct:
  "\<forall>q\<in>set qs. safeId (q_id q) \<Longrightarrow> distinct (map q_id qs) \<Longrightarrow> q \<in> set qs \<Longrightarrow>
   foldl (\<lambda>m q. setProp m (q_id q) (f q)) rep qs (q_id q) = Some (f q)"
proof (induction qs arbitrary: rep)
  case Nil
  then show ?case by simp
next
  case (Cons a qs)
  have safe: "\<forall>q\<in>set qs. safeId (q_id q)" "safeId (q_id a)" using Cons.prems(1) by simp_all
  show ?case
  proof (cases "q = a")
    case True
    then have "q_id q \<notin> q_id ` set qs" using Cons.prems(2) by auto
    from report_keep[OF this, of f "setProp rep (q_id a) (f a)"]
    show ?thesis using True by (simp add: setProp_safe[OF safe(2)])
  next
    case False
    then have "q \<in> set qs" using Cons.prems(3) by simp
    from Cons.IH[OF safe(1) _ this, of "setProp rep (q_id a) (f a)"] Cons.prems(2)
    show ?thesis by simp
  qed
qed

lemma handleSubmit_graded:
  assumes "a_type a = Some READING \<or> a_type a = Some LISTENING"
    and "\<forall>q\<in>set (allQuestions a). getProp answers (q_id q) \<noteq> Inherited"
  shows "handleSubmit (Some a) user answers tv sid md =
     Inr (Some \<lparr>s_id = sid, s_assignmentId = a_id a, s_studentId = u_id user,
           s_studentName = u_name user, s_answers = answers, s_status = GRADED,
           s_grade = Some (numToString
                (length (filter (\<lambda>q. r_isCorrect (ruleResult answers q)) (allQuestions a)))
              @ ''/'' @ numToString (length (allQuestions a))),
           s_feedback = None,
           s_transcription = orUndefined (Some (join
              [CHR 0x0A, CHR 0x0A, CHR ''-'', CHR ''-'', CHR ''-'', CHR 0x0A, CHR 0x0A] tv)),
           s_report = Some (foldl (\<lambda>m q. setProp m (q_id q) (ruleResult answers q))
                              Map.empty (allQuestions a)),
           s_metadata = md\<rparr>)"
  using assms(1) by (auto simp: handleSubmit_def Let_def gradeAll_Inr[OF assms(2)])

lemma handleSubmit_throws:
  assumes "a_type a = Some READING \<or> a_type a = Some LISTENING"
    and "\<exists>q\<in>set (allQuestions a). getProp answers (q_id q) = Inherited"
  shows "handleSubmit (Some a) user answers tv sid md = Inl TypeError"
  using assms(1) by (auto simp: handleSubmit_def gradeAll_Inl[OF assms(2)])

lemma handleSubmit_ungraded:
  assumes "a_type a \<noteq> Some READING" "a_type a \<noteq> Some LISTENING"
  shows "handleSubmit (Some a) user answers tv sid md =
     Inr (Some \<lparr>s_id = sid, s_assignmentId = a_id a, s_studentId = u_id user,
           s_studentName = u_name user, s_answers = answers, s_status = SUBMITTED,
           s_grade = None, s_feedback = None,
           s_transcription = orUndefined (Some (join
              [CHR 0x0A, CHR 0x0A, CHR ''-'', CHR ''-'', CHR ''-'', CHR 0x0A, CHR 0x0A] tv)),
           s_report = None, s_metadata = md\<rparr>)"
  using assms by (simp add: handleSubmit_def Let_def)

text \<open>
  Claim C3, as amended. A READING or LISTENING submission is GRADED, with a report and
  the grade \<open>correctCount/totalQuestions\<close>, whose denominator is the length of the list
  the grader flattens, whatever the answers: the questions of the groups in order when
  the assignment has question groups, and the legacy question list of the assignment
  when it has none. This is stated of the submissions in which no question without an
  answer has an identifier that names a member of \<^verbatim>\<open>Object.prototype\<close>; what the handler
  does with the others is the subject of claim C4. A WRITING or SPEAKING submission is
  SUBMITTED, with no grade and no report.
\<close>

theorem submission_grade:
  "(let flat = (case a_questionGroups a of
                  Some groups \<Rightarrow> concat (map g_questions groups)
                | None \<Rightarrow> (case a_questions a of Some qs \<Rightarrow> qs | None \<Rightarrow> []));
        correctCount = length (filter (\<lambda>q. r_isCorrect (ruleResult answers q)) flat)
    in ((a_type a = Some READING \<or> a_type a = Some LISTENING) \<and>
        (\<forall>q\<in>set flat. answers (q_id q) = None \<longrightarrow> safeId (q_id q)) \<longrightarrow>
          (\<exists>sub report. handleSubmit (Some a) user answers tv sid md = Inr (Some sub) \<and>
             s_status sub = GRADED \<and> s_report sub = Some report \<and>
             s_grade sub = Some (numToString correctCount @ ''/'' @ numToString (length flat))))
     \<and> (a_type a = Some WRITING \<or> a_type a = Some SPEAKING \<longrightarrow>
          (\<exists>sub. handleSubmit (Some a) user answers tv sid md = Inr (Some sub) \<and>
             s_status sub = SUBMITTED \<and> s_grade sub = None \<and> s_report sub = None)))"
proof -
  have flat: "(case a_questionGroups a of
                  Some groups \<Rightarrow> concat (map g_questions groups)
                | None \<Rightarrow> (case a_questions a of Some qs \<Rightarrow> qs | None \<Rightarrow> [])) = allQuestions a"
    by (simp add: allQuestions_def)
  have g: "\<exists>sub report. handleSubmit (Some a) user answers tv sid md = Inr (Some sub) \<and>
             s_status sub = GRADED \<and> s_report sub = Some report \<and>
             s_grade sub = Some (numToString
                (length (filter (\<lambda>q. r_isCorrect (ruleResult answers q)) (allQuestions a)))
                 @ ''/'' @ numToString (length (allQuestions a)))"
    if t: "a_type a = Some READING \<or> a_type a = Some LISTENING"
      and s: "\<forall>q\<in>set (allQuestions a). answers (q_id q) = None \<longrightarrow> safeId (q_id q)"
  proof -
    have "\<forall>q\<in>set (allQuestions a). getProp answers (q_id q) \<noteq> Inherited"
      using s by (auto simp: getProp_def safeId_def split: option.splits)
    from handleSubmit_graded[OF t this] show ?thesis by simp
  qed
  have u: "a_type a = Some WRITING \<or> a_type a = Some SPEAKING \<Longrightarrow>
     (\<exists>sub. handleSubmit (Some a) user answers tv sid md = Inr (Some sub) \<and>
             s_status sub = SUBMITTED \<and> s_grade sub = None \<and> s_report sub = None)"
    by (auto simp: handleSubmit_ungraded)
  show ?thesis
    unfolding Let_def flat using g u by blast
qed

theorem submission_grade_witness:
  "a_type exReading = Some READING \<and>
   list_all (\<lambda>q. exAnswers (q_id q) = None \<longrightarrow> safeId (q_id q)) [exQ1, exQ2, exQ3] \<and>
   map_sum id (map_option s_status)
     (handleSubmit (Some exReading) exStudent exAnswers [] ''s1'' None) = Inr (Some GRADED) \<and>
   map_sum id (map_option s_grade)
     (handleSubmit (Some exReading) exStudent exAnswers [] ''s1'' None)
     = Inr (Some (Some ''1/3'')) \<and>
   a_type exWriting = Some WRITING \<and>
   map_sum id (map_option s_status)
     (handleSubmit (Some exWriting) exStudent exAnswers [] ''s2'' None)
     = Inr (Some SUBMITTED) \<and>
   map_sum id (map_option s_grade)
     (handleSubmit (Some exWriting) exStudent exAnswers [] ''s2'' None) = Inr (Some None)"
proof -
  have r: "a_type exReading = Some READING" by code_simp
  have w: "a_type exWriting = Some WRITING" by code_simp
  have flat: "(case a_questionGroups exReading of
                  Some groups \<Rightarrow> concat (map g_questions groups)
                | None \<Rightarrow> (case a_questions exReading of Some qs \<Rightarrow> qs | None \<Rightarrow> []))
              = [exQ1, exQ2, exQ3]"
    by (simp add: exReading_def exGroup1_def exGroup2_def)
  have safe: "list_all (\<lambda>q. exAnswers (q_id q) = None \<longrightarrow> safeId (q_id q)) [exQ1, exQ2, exQ3]"
    by code_simp
  have cnt: "length (filter (\<lambda>q. r_isCorrect (ruleResult exAnswers q)) [exQ1, exQ2, exQ3]) = 1"
    by code_simp
  have n: "numToString 1 @ ''/'' @ numToString (length [exQ1, exQ2, exQ3]) = ''1/3''"
    by code_simp
  show ?thesis
    using submission_grade[of exReading exAnswers exStudent "[]" "''s1''" None]
      submission_grade[of exWriting exAnswers exStudent "[]" "''s2''" None] r w safe
    unfolding Let_def flat cnt n by (auto simp: list_all_iff)
qed

text \<open>
  Claim C3 as stated fails on a legacy assignment: it has no question groups, so the
  concatenation of the questions of its groups is empty, and its grade is out of 1.
\<close>

theorem submission_grade_counterexample:
  "a_type exLegacy = Some READING \<and> length (groupQuestions exLegacy) = 0 \<and>
   map_sum id (map_option s_grade)
     (handleSubmit (Some exLegacy) exStudent exAnswers [] ''s0'' None)
     = Inr (Some (Some ''0/1''))"
  by code_simp


text \<open>
  Claim C4 fails. The claim has grading total: a report with a result for every
  question identifier, no exception, a question without an entry in the answers
  compared as the empty string. On a READING assignment with the questions \<open>q1\<close> and
  \<open>constructor\<close>, the student having answered none of them or only the first, the
  lookup \<^verbatim>\<open>answers["constructor"]\<close> finds the inherited constructor function, which is
  truthy and has no \<^verbatim>\<open>trim\<close> method: \<open>handleSubmit\<close> throws a TypeError and submits
  nothing. On an assignment with the one question \<^verbatim>\<open>__proto__\<close>, answered correctly,
  the handler submits with the grade 1/1, but the assignment to
  \<^verbatim>\<open>report["__proto__"]\<close> has replaced the prototype of the report, which has no entry
  for the question.
\<close>

theorem grading_throws:
  "a_type exInherited = Some READING \<and>
   map q_id (allQuestions exInherited) = [''q1'', ''constructor''] \<and>
   map_sum id (map_option s_id)
     (handleSubmit (Some exInherited) exStudent Map.empty [] ''s3'' None) = Inl TypeError \<and>
   map_sum id (map_option s_id)
     (handleSubmit (Some exInherited) exStudent [''q1'' \<mapsto> ''NOT GIVEN''] [] ''s3'' None)
     = Inl TypeError \<and>
   map q_id (allQuestions exSetter) = [''__proto__''] \<and>
   map_sum id (map_option s_grade)
     (handleSubmit (Some exSetter) exStudent [''__proto__'' \<mapsto> ''NOT GIVEN''] [] ''s4'' None)
     = Inr (Some (Some ''1/1'')) \<and>
   map_sum id (map_option (attempted ''__proto__''))
     (handleSubmit (Some exSetter) exStudent [''__proto__'' \<mapsto> ''NOT GIVEN''] [] ''s4'' None)
     = Inr (Some False)"
  by code_simp

text \<open>
  Outside that case grading is total. When every question identifier is safe, a
  selected assignment yields a submission; for READING and LISTENING its report has an
  entry exactly for the identifiers of the questions, each the result of the rule for a
  question of that identifier (the question itself when identifiers are distinct). A
  question without an entry in the answers is graded with the empty answer and is
  correct exactly when the trimmed key is empty; a question without a key is compared
  against the empty string.
\<close>

lemma grading_total_safe:
  assumes safe: "\<forall>q\<in>set (allQuestions a). safeId (q_id q)"
  shows "(\<exists>sub. handleSubmit (Some a) user answers tv sid md = Inr (Some sub)) \<and>
   (a_type a = Some READING \<or> a_type a = Some LISTENING \<longrightarrow>
      (\<exists>sub report.
         handleSubmit (Some a) user answers tv sid md = Inr (Some sub) \<and>
         s_report sub = Some report \<and>
         dom report = q_id ` set (allQuestions a) \<and>
         (\<forall>q\<in>set (allQuestions a). \<exists>q'\<in>set (allQuestions a).
            q_id q' = q_id q \<and> report (q_id q) = Some (ruleResult answers q')) \<and>
         (distinct (map q_id (allQuestions a)) \<longrightarrow>
            (\<forall>q\<in>set (allQuestions a). report (q_id q) = Some (ruleResult answers q)))))"
proof -
  have ni: "\<forall>q\<in>set (allQuestions a). getProp answers (q_id q) \<noteq> Inherited"
    using safe by (auto simp: getProp_def safeId_def split: option.splits)
  have total: "\<exists>sub. handleSubmit (Some a) user answers tv sid md = Inr (Some sub)"
  proof (cases "a_type a = Some READING \<or> a_type a = Some LISTENING")
    case True
    then show ?thesis by (simp add: handleSubmit_graded[OF True ni])
  next
    case False
    then show ?thesis by (simp add: handleSubmit_ungraded)
  qed
  have rep: "\<exists>sub report.
         handleSubmit (Some a) user answers tv sid md = Inr (Some sub) \<and>
         s_report sub = Some report \<and>
         dom report = q_id ` set (allQuestions a) \<and>
         (\<forall>q\<in>set (allQuestions a). \<exists>q'\<in>set (allQuestions a).
            q_id q' = q_id q \<and> report (q_id q) = Some (ruleResult answers q')) \<and>
         (distinct (map q_id (allQuestions a)) \<longrightarrow>
            (\<forall>q\<in>set (allQuestions a). report (q_id q) = Some (ruleResult answers q)))"
    if t: "a_type a = Some READING \<or> a_type a = Some LISTENING"
  proof -
    let ?report = "foldl (\<lambda>m q. setProp m (q_id q) (ruleResult answers q)) Map.empty
                     (allQuestions a)"
    have "dom ?report = q_id ` set (allQuestions a)"
      by (simp add: report_dom[OF safe])
    moreover have "\<forall>q\<in>set (allQuestions a). \<exists>q'\<in>set (allQuestions a).
            q_id q' = q_id q \<and> ?report (q_id q) = Some (ruleResult answers q')"
      using report_entry[OF safe] by blast
    moreover have "distinct (map q_id (allQuestions a)) \<longrightarrow>
            (\<forall>q\<in>set (allQuestions a). ?report (q_id q) = Some (ruleResult answers q))"
      using report_entry_distinct[OF safe] by blast
    ultimately show ?thesis
      by (simp add: handleSubmit_graded[OF t ni])
  qed
  show ?thesis using total rep by blast
qed

lemma ruleResult_unanswered:
  "answers (q_id q) = None \<Longrightarrow>
   r_studentAnswer (ruleResult answers q) = [] \<and>
   r_isCorrect (ruleResult answers q) = (trim (orElse (q_correctAnswer q) []) = [])"
  by (simp add: ruleResult_def Let_def orElse_def trim_Nil specIsCorrect_unanswered)

lemma ruleResult_no_key:
  "q_correctAnswer q = None \<Longrightarrow>
   r_correctAnswer (ruleResult answers q) = [] \<and>
   r_isCorrect (ruleResult answers q) =
     specIsCorrect q (trim (orElse (answers (q_id q)) [])) []"
  by (simp add: ruleResult_def Let_def orElse_def trim_Nil)

text \<open>
  Every submission that \<open>handleSubmit\<close> produces, for fewer than \<open>2 ^ 53\<close> questions,
  has a grade in range.
\<close>

lemma handleSubmit_gradeInRange:
  assumes "handleSubmit (Some a) user answers tv sid md = Inr (Some sub)"
    and "length (allQuestions a) < 2 ^ 53"
  shows "gradeInRange sub"
proof (cases "a_type a = Some READING \<or> a_type a = Some LISTENING")
  case True
  let ?k = "length (filter (\<lambda>q. r_isCorrect (ruleResult answers q)) (allQuestions a))"
  let ?n = "length (allQuestions a)"
  have ni: "\<forall>q\<in>set (allQuestions a). getProp answers (q_id q) \<noteq> Inherited"
  proof (rule ccontr)
    assume "\<not> ?thesis"
    then have "\<exists>q\<in>set (allQuestions a). getProp answers (q_id q) = Inherited" by simp
    from handleSubmit_throws[OF True this, of user tv sid md] assms(1) show False by simp
  qed
  have g: "s_grade sub = Some (numToString ?k @ ''/'' @ numToString ?n)"
    using assms(1) handleSubmit_graded[OF True ni, of user tv sid md] by auto
  have "?k \<le> ?n" by simp
  moreover have "int ?n < 2 ^ 53" using assms(2) by simp
  ultimately show ?thesis
    unfolding gradeInRange_def g
    by (simp only: option.case split_grade list.case numToString_digits numToString_not_Nil
        digitsValue_numToString not_False_eq_True simp_thms)
next
  case False
  then have "s_grade sub = None"
    using assms(1) handleSubmit_ungraded[of a user answers tv sid md] by auto
  then show ?thesis by (simp add: gradeInRange_def)
qed

section \<open>Analytics\<close>

lemma countAttempts_eq:
  "safeId qid \<Longrightarrow>
   countAttempts subs qid (c, a) =
     (c + length (filter (answeredCorrectly qid) subs), a + length (filter (attempted qid) subs))"
  by (induction subs arbitrary: c a)
    (auto simp: answeredCorrectly_def attempted_def getProp_safe split: option.splits)

lemma countAttempts_le:
  "c \<le> a \<Longrightarrow> fst (countAttempts subs qid (c, a)) \<le> snd (countAttempts subs qid (c, a))"
  by (induction subs arbitrary: c a)
    (auto split: option.splits js_lookup.splits)

lemma countAttempts_Nil: "countAttempts [] qid (0, 0) = (0, 0)"
  by simp

lemma correct_le_attempts:
  "length (filter (answeredCorrectly qid) subs) \<le> length (filter (attempted qid) subs)"
proof -
  have imp: "answeredCorrectly qid s \<Longrightarrow> attempted qid s" for s
    by (cases "s_report s") (auto simp: answeredCorrectly_def attempted_def split: option.splits)
  have "filter (answeredCorrectly qid) (filter (attempted qid) subs)
        = filter (answeredCorrectly qid) subs"
    using imp by (induction subs) auto
  then show ?thesis by (metis length_filter_le)
qed

lemma questionStat_accuracy:
  "st_accuracy (questionStat graded q) =
     percentage (fst (countAttempts graded (q_id q) (0, 0)))
                (snd (countAttempts graded (q_id q) (0, 0)))"
  by (simp add: questionStat_def percentage_def split: prod.splits)

lemma questionStat_percent: "isPercent (st_accuracy (questionStat graded q))"
  unfolding questionStat_accuracy
  by (rule percentage_isPercent) (rule countAttempts_le, simp)

lemma questionStat_eq:
  "safeId (q_id q) \<Longrightarrow>
   questionStat graded q =
     \<lparr>st_question = q,
      st_accuracy = percentage (length (filter (answeredCorrectly (q_id q)) graded))
                               (length (filter (attempted (q_id q)) graded)),
      st_correctCount = length (filter (answeredCorrectly (q_id q)) graded),
      st_attemptCount = length (filter (attempted (q_id q)) graded)\<rparr>"
  by (simp add: questionStat_def countAttempts_eq percentage_def)

lemma questionStat_no_graded: "st_accuracy (questionStat [] q) = Fin 0"
  by (simp add: questionStat_def)

text \<open>
  On percentages the comparator \<^verbatim>\<open>a.accuracy - b.accuracy\<close> is exact, and the sort is
  the stable sort by the integer that the accuracy denotes.
\<close>

lemma percent_gt:
  assumes "isPercent x" "isPercent y"
  shows "js_gt0 (js_sub x y) \<longleftrightarrow> percentValue y < percentValue x"
proof -
  obtain i where i: "x = Fin (of_int i)" "0 \<le> i" "i \<le> 100"
    using assms(1) unfolding isPercent_cases by blast
  obtain j where j: "y = Fin (of_int j)" "0 \<le> j" "j \<le> 100"
    using assms(2) unfolding isPercent_cases by blast
  have "\<bar>i\<bar> \<le> 100" "\<bar>j\<bar> \<le> 100" using i j by simp_all
  from percent_compare[OF i(1) j(1) this] show ?thesis
    by (simp add: percentValue_def i(1) j(1))
qed

lemma percent_le:
  assumes "isPercent x" "isPercent y"
  shows "js_le x y \<longleftrightarrow> percentValue x \<le> percentValue y"
proof -
  obtain i where i: "x = Fin (of_int i)" using assms(1) unfolding isPercent_cases by blast
  obtain j where j: "y = Fin (of_int j)" using assms(2) unfolding isPercent_cases by blast
  show ?thesis by (simp add: percentValue_def i j)
qed

lemma percent_eq:
  assumes "isPercent x" "isPercent y"
  shows "x = y \<longleftrightarrow> percentValue x = percentValue y"
proof -
  obtain i where i: "x = Fin (of_int i)" using assms(1) unfolding isPercent_cases by blast
  obtain j where j: "y = Fin (of_int j)" using assms(2) unfolding isPercent_cases by blast
  show ?thesis by (simp add: percentValue_def i j)
qed

lemma insertBy_insort:
  assumes "isPercent (f x)" "\<forall>y\<in>set ys. isPercent (f y)"
  shows "insertBy (\<lambda>a b. js_sub (f a) (f b)) x ys = insort_key (\<lambda>a. percentValue (f a)) x ys"
  using assms(2)
proof (induction ys)
  case Nil
  then show ?case by simp
next
  case (Cons y ys)
  have "js_gt0 (js_sub (f x) (f y)) \<longleftrightarrow> percentValue (f y) < percentValue (f x)"
    using percent_gt[OF assms(1)] Cons.prems by simp
  then show ?case using Cons by auto
qed

lemma js_sort_sort_key:
  assumes "\<forall>x\<in>set xs. isPercent (f x)"
  shows "js_sort (\<lambda>a b. js_sub (f a) (f b)) xs = sort_key (\<lambda>a. percentValue (f a)) xs"
  using assms
proof (induction xs)
  case Nil
  then show ?case by (simp add: js_sort_def)
next
  case (Cons x xs)
  have ih: "js_sort (\<lambda>a b. js_sub (f a) (f b)) xs = sort_key (\<lambda>a. percentValue (f a)) xs"
    using Cons by simp
  have "\<forall>y\<in>set (sort_key (\<lambda>a. percentValue (f a)) xs). isPercent (f y)"
    using Cons.prems by simp
  from insertBy_insort[OF _ this, of x] Cons.prems
  have "insertBy (\<lambda>a b. js_sub (f a) (f b)) x (sort_key (\<lambda>a. percentValue (f a)) xs)
        = insort_key (\<lambda>a. percentValue (f a)) x (sort_key (\<lambda>a. percentValue (f a)) xs)"
    by simp
  then show ?case using ih by (simp add: js_sort_def sort_key_def)
qed

lemma js_sort_props:
  assumes p: "\<forall>x\<in>set xs. isPercent (f x)"
  shows "mset (js_sort (\<lambda>a b. js_sub (f a) (f b)) xs) = mset xs"
    "sorted_wrt (\<lambda>a b. js_le (f a) (f b)) (js_sort (\<lambda>a b. js_sub (f a) (f b)) xs)"
    "filter (\<lambda>a. f a = k) (js_sort (\<lambda>a b. js_sub (f a) (f b)) xs) = filter (\<lambda>a. f a = k) xs"
proof -
  let ?g = "\<lambda>a. percentValue (f a)"
  note eq = js_sort_sort_key[OF p]
  show "mset (js_sort (\<lambda>a b. js_sub (f a) (f b)) xs) = mset xs"
    unfolding eq by simp
  have "sorted (map ?g (sort_key ?g xs))" by (rule sorted_sort_key)
  then have "sorted_wrt (\<lambda>a b. ?g a \<le> ?g b) (sort_key ?g xs)"
    by (simp add: sorted_map)
  then have "sorted_wrt (\<lambda>a b. js_le (f a) (f b)) (sort_key ?g xs)"
  proof (rule sorted_wrt_mono_rel[rotated])
    fix a b
    assume "a \<in> set (sort_key ?g xs)" "b \<in> set (sort_key ?g xs)" "?g a \<le> ?g b"
    then show "js_le (f a) (f b)" using p percent_le by simp
  qed
  then show "sorted_wrt (\<lambda>a b. js_le (f a) (f b)) (js_sort (\<lambda>a b. js_sub (f a) (f b)) xs)"
    unfolding eq .
  show "filter (\<lambda>a. f a = k) (js_sort (\<lambda>a b. js_sub (f a) (f b)) xs) = filter (\<lambda>a. f a = k) xs"
  proof (cases "isPercent k")
    case True
    have c: "(f a = k) = (?g a = percentValue k)" if "a \<in> set xs" for a
      using percent_eq[OF _ True, of "f a"] p that by simp
    have "filter (\<lambda>a. f a = k) (sort_key ?g xs) = filter (\<lambda>a. ?g a = percentValue k) (sort_key ?g xs)"
      by (rule filter_cong) (simp_all add: c)
    also have "\<dots> = filter (\<lambda>a. ?g a = percentValue k) xs"
      by (rule sort_key_stable)
    also have "\<dots> = filter (\<lambda>a. f a = k) xs"
      by (rule filter_cong) (simp_all add: c)
    finally show ?thesis unfolding eq .
  next
    case False
    then have n: "f a \<noteq> k" if "a \<in> set xs" for a using p that by auto
    have "filter (\<lambda>a. f a = k) (sort_key ?g xs) = []" using n by (simp add: filter_empty_conv)
    moreover have "filter (\<lambda>a. f a = k) xs = []" using n by (simp add: filter_empty_conv)
    ultimately show ?thesis unfolding eq by simp
  qed
qed

lemma analyticsData_Some:
  assumes "analyticsData (Some aid) assignments submissions students = Some an"
  shows "find (\<lambda>a. a_id a = aid) assignments = Some (an_assignment an)"
    "an_assignmentSubmissions an = filter (\<lambda>s. s_assignmentId s = aid) submissions"
    "an_gradedSubmissions an = filter (isGradedFor aid) submissions"
    "an_allQuestions an = allQuestions (an_assignment an)"
    "an_questionStats an =
       js_sort (\<lambda>a b. js_sub (st_accuracy a) (st_accuracy b))
         (map (questionStat (an_gradedSubmissions an)) (an_allQuestions an))"
    "an_averageScore an =
       (if an_gradedSubmissions an \<noteq> []
        then Math_round (js_div (foldl js_add (Fin 0) (map gradeScore (an_gradedSubmissions an)))
                                (ofLength (length (an_gradedSubmissions an))))
        else Fin 0)"
    "an_completionRate an =
       (if students \<noteq> []
        then Math_round (js_mul (js_div (ofLength (length (an_assignmentSubmissions an)))
                                        (ofLength (length students))) (Fin 100))
        else Fin 0)"
proof -
  have ne: "aid \<noteq> []" using assms by (auto simp: analyticsData_def)
  obtain asg where f: "find (\<lambda>a. a_id a = aid) assignments = Some asg"
    using assms ne by (auto simp: analyticsData_def split: option.splits)
  have g: "isGradedFor aid = (\<lambda>s. s_assignmentId s = aid \<and> s_status s = GRADED \<and> s_report s \<noteq> None)"
    by (simp add: fun_eq_iff isGradedFor_def)
  note unfold = analyticsData_def Let_def g
  show "find (\<lambda>a. a_id a = aid) assignments = Some (an_assignment an)"
    using assms ne f by (auto simp: unfold)
  show "an_assignmentSubmissions an = filter (\<lambda>s. s_assignmentId s = aid) submissions"
    using assms ne f by (auto simp: unfold)
  show "an_gradedSubmissions an = filter (isGradedFor aid) submissions"
    using assms ne f by (auto simp: unfold)
  show "an_allQuestions an = allQuestions (an_assignment an)"
    using assms ne f by (auto simp: unfold)
  show "an_questionStats an =
       js_sort (\<lambda>a b. js_sub (st_accuracy a) (st_accuracy b))
         (map (questionStat (an_gradedSubmissions an)) (an_allQuestions an))"
    using assms ne f by (auto simp: unfold)
  show "an_averageScore an =
       (if an_gradedSubmissions an \<noteq> []
        then Math_round (js_div (foldl js_add (Fin 0) (map gradeScore (an_gradedSubmissions an)))
                                (ofLength (length (an_gradedSubmissions an))))
        else Fin 0)"
    using assms ne f by (auto simp: unfold)
  show "an_completionRate an =
       (if students \<noteq> []
        then Math_round (js_mul (js_div (ofLength (length (an_assignmentSubmissions an)))
                                        (ofLength (length students))) (Fin 100))
        else Fin 0)"
    using assms ne f by (auto simp: unfold)
qed

lemma graded_filters:
  "filter (attempted qid) (filter (isGradedFor aid) submissions) = gradedAttempts aid submissions qid"
  "filter (answeredCorrectly qid) (filter (isGradedFor aid) submissions)
     = gradedCorrect aid submissions qid"
  by (auto simp: gradedAttempts_def gradedCorrect_def isGradedFor_def attempted_def
      answeredCorrectly_def intro!: filter_cong split: option.splits)

lemma questionStat_expected:
  "safeId (q_id q) \<Longrightarrow>
   questionStat (filter (isGradedFor aid) submissions) q = expectedStat aid submissions q"
  by (simp only: questionStat_eq graded_filters expectedStat_def)

text \<open>
  The rounded percentage of the source is computed on doubles: 23 correct answers of
  40 attempts give the quotient 0.575 rounded to a double, whose product with 100
  rounds to 57.49999999999999, and the accuracy is 57, where the exact percentage 57.5
  would round to 58.
\<close>

lemma percentage_doubles:
  "percentage 23 40 = Fin 57 \<and> \<lfloor>(23 / 40 * 100 + 1 / 2 :: rat)\<rfloor> = 58 \<and>
   js_mul (js_div (Fin 23) (Fin 40)) (Fin 100) = Fin (8092405580431359 / 140737488355328)"
  by code_simp


text \<open>
  Claim C8, as amended. For the selected assignment the aggregator returns one statistic
  per question of the flattened list. Its attempt count is the number of graded
  submissions of the assignment whose report has an entry for the question, answered or
  left blank, its correct count the number of those marked correct, and its accuracy the
  rounded percentage \<open>Math.round ((correctCount / attemptCount) * 100)\<close> of double
  arithmetic, 0 when nobody attempted. The statistics are sorted by that accuracy,
  ascending, and statistics of equal accuracy keep the order of the questions. This is
  stated of the assignments whose question identifiers name no member of
  \<^verbatim>\<open>Object.prototype\<close>.
\<close>

theorem question_stats:
  assumes "analyticsData (Some aid) assignments submissions students = Some an"
    and "\<forall>q\<in>set (allQuestions (an_assignment an)). safeId (q_id q)"
  shows "find (\<lambda>a. a_id a = aid) assignments = Some (an_assignment an) \<and>
     mset (an_questionStats an)
       = mset (map (expectedStat aid submissions) (allQuestions (an_assignment an))) \<and>
     sorted_wrt (\<lambda>s t. js_le (st_accuracy s) (st_accuracy t)) (an_questionStats an) \<and>
     (\<forall>k. filter (\<lambda>st. st_accuracy st = k) (an_questionStats an)
          = filter (\<lambda>st. st_accuracy st = k)
              (map (expectedStat aid submissions) (allQuestions (an_assignment an))))"
proof -
  note a = analyticsData_Some[OF assms(1)]
  let ?stats = "map (expectedStat aid submissions) (allQuestions (an_assignment an))"
  have m: "map (questionStat (an_gradedSubmissions an)) (an_allQuestions an) = ?stats"
    unfolding a(3) a(4) using assms(2) by (simp add: questionStat_expected)
  have qs: "an_questionStats an = js_sort (\<lambda>a b. js_sub (st_accuracy a) (st_accuracy b)) ?stats"
    using a(5) unfolding m .
  have "\<forall>st\<in>set (map (questionStat (an_gradedSubmissions an)) (an_allQuestions an)).
          isPercent (st_accuracy st)"
    by (simp add: questionStat_percent)
  then have p: "\<forall>st\<in>set ?stats. isPercent (st_accuracy st)" unfolding m .
  note s = js_sort_props[OF p]
  show ?thesis
    unfolding qs using a(1) s(1) s(2) s(3) by blast
qed

theorem question_stats_witness:
  "list_all (\<lambda>q. safeId (q_id q)) (allQuestions exReading) \<and>
   map_option (map statSummary \<circ> an_questionStats)
     (analyticsData (Some ''a1'') [exReading] exSubmissions [exStudent])
   = Some [(''q3'', 0, 3, Fin 0), (''q1'', 1, 3, Fin 33), (''q2'', 2, 3, Fin 67)] \<and>
   map statSummary (map (expectedStat ''a1'' exSubmissions) (allQuestions exReading))
   = [(''q1'', 1, 3, Fin 33), (''q2'', 2, 3, Fin 67), (''q3'', 0, 3, Fin 0)]"
proof -
  obtain an where an: "analyticsData (Some ''a1'') [exReading] exSubmissions [exStudent] = Some an"
    by (simp add: analyticsData_def Let_def exReading_def)
  have asg: "an_assignment an = exReading"
    using an by (auto simp: analyticsData_def Let_def exReading_def)
  have safe: "list_all (\<lambda>q. safeId (q_id q)) (allQuestions exReading)"
    by code_simp
  then have h: "\<forall>q\<in>set (allQuestions (an_assignment an)). safeId (q_id q)"
    unfolding asg by (simp add: list_all_iff)
  have e: "map statSummary (map (expectedStat ''a1'' exSubmissions) (allQuestions exReading))
   = [(''q1'', 1, 3, Fin 33), (''q2'', 2, 3, Fin 67), (''q3'', 0, 3, Fin 0)]"
    by code_simp
  have v: "map_option (map statSummary \<circ> an_questionStats)
     (analyticsData (Some ''a1'') [exReading] exSubmissions [exStudent])
   = Some [(''q3'', 0, 3, Fin 0), (''q1'', 1, 3, Fin 33), (''q2'', 2, 3, Fin 67)]"
    by code_simp
  show ?thesis using question_stats[OF an h] safe e v by simp
qed

text \<open>
  Claim C8 as stated fails on three graded submissions of the example assignment. One of
  the three students answered the first question correctly: its accuracy is 33, neither
  the ratio 1/3 nor the percentage as a double. None of them answered the third
  question, and its attempt count is 3: the reports of the auto-grader have an entry for
  every question.
\<close>

theorem question_stats_counterexample:
  "map_option (map statSummary \<circ> an_questionStats)
     (analyticsData (Some ''a1'') [exReading] exSubmissions [exStudent])
   = Some [(''q3'', 0, 3, Fin 0), (''q1'', 1, 3, Fin 33), (''q2'', 2, 3, Fin 67)] \<and>
   Fin 33 \<noteq> js_div (Fin 1) (Fin 3) \<and>
   Fin 33 \<noteq> js_mul (js_div (Fin 1) (Fin 3)) (Fin 100) \<and>
   list_all (unanswered ''q3'') exSubmissions"
  by code_simp

text \<open>
  The score of a grade in range is between 0 and 100, and so are the sums of \<open>k\<close> such
  scores between 0 and \<open>100 * k\<close>, for the lengths of an array.
\<close>

lemma gradeScore_range:
  assumes "gradeInRange s"
  shows "\<exists>w. gradeScore s = Fin w \<and> 0 \<le> w \<and> w \<le> 100"
proof (cases "s_grade s")
  case None
  then show ?thesis by (simp add: gradeScore_def)
next
  case (Some g)
  then obtain a b where ab: "split CHR ''/'' g = [a, b]" "a \<noteq> []" "list_all isDigit a"
    "b \<noteq> []" "list_all isDigit b" "digitsValue a \<le> digitsValue b" "digitsValue b < 2 ^ 53"
    using assms by (auto simp: gradeInRange_def Some split: list.splits)
  have na: "Number a = Fin (of_nat (digitsValue a))"
    using ab by (intro Number_digits) simp_all
  have nb: "Number b = Fin (of_nat (digitsValue b))"
    using ab by (intro Number_digits) simp_all
  show ?thesis
  proof (cases "g \<noteq> [] \<and> 0 < digitsValue b")
    case True
    then have "(0::rat) \<le> of_nat (digitsValue a)"
      "(of_nat (digitsValue a) :: rat) \<le> of_nat (digitsValue b)"
      "(0::rat) < of_nat (digitsValue b)"
      using ab(6) by simp_all
    from scaled_ratio[OF this]
    obtain w where w: "js_mul (js_div (Fin (of_nat (digitsValue a))) (Fin (of_nat (digitsValue b))))
        (Fin 100) = Fin w" "0 \<le> w" "w \<le> 100" by blast
    have "gradeScore s = Fin w"
      unfolding gradeScore_def Some option.case ab(1) list.map na nb list.case w(1)
      using True by (simp add: isNaN_def js_gt0_def)
    then show ?thesis using w(2,3) by blast
  next
    case False
    have "gradeScore s = Fin 0"
      unfolding gradeScore_def Some option.case ab(1) list.map na nb list.case
      using False by (auto simp: isNaN_def js_gt0_def)
    then show ?thesis by simp
  qed
qed

lemma sum_scores:
  assumes "\<forall>x\<in>set xs. \<exists>w. x = Fin w \<and> 0 \<le> w \<and> w \<le> 100"
    and "0 \<le> S" "S \<le> 100 * of_nat m" "m + length xs < 2 ^ 32"
  shows "\<exists>T. foldl js_add (Fin S) xs = Fin T \<and> 0 \<le> T \<and> T \<le> 100 * of_nat (m + length xs)"
  using assms
proof (induction xs arbitrary: S m)
  case Nil
  then show ?case by simp
next
  case (Cons x xs)
  obtain w where w: "x = Fin w" "0 \<le> w" "w \<le> 100" using Cons.prems(1) by auto
  have m: "100 * (m + 1) < (2::nat) ^ 53" using Cons.prems(4) by simp
  have d: "isDouble (of_nat (100 * (m + 1)))" by (rule isDouble_of_nat[OF m])
  have "0 \<le> S + w" using Cons.prems(2) w(2) by simp
  moreover have "S + w \<le> of_nat (100 * (m + 1))" using Cons.prems(3) w(3) by simp
  ultimately obtain z where z: "fl (S + w) = Fin z" "0 \<le> z" "z \<le> of_nat (100 * (m + 1))"
    using fl_range[OF _ _ d] by blast
  have z': "z \<le> 100 * of_nat (m + 1)" using z(3) by simp
  have "\<exists>T. foldl js_add (Fin z) xs = Fin T \<and> 0 \<le> T \<and> T \<le> 100 * of_nat (m + 1 + length xs)"
    using Cons.prems(1,4) by (intro Cons.IH[OF _ z(2) z']) simp_all
  then show ?case by (simp add: w(1) z(1))
qed

lemma average_percent:
  assumes "\<forall>s\<in>set subs. gradeInRange s" "subs \<noteq> []" "length subs < 2 ^ 32"
  shows "isPercent (Math_round (js_div (foldl js_add (Fin 0) (map gradeScore subs))
                                       (ofLength (length subs))))"
proof -
  have "\<forall>x\<in>set (map gradeScore subs). \<exists>w. x = Fin w \<and> 0 \<le> w \<and> w \<le> 100"
    using assms(1) gradeScore_range by auto
  from sum_scores[OF this, of 0 0] assms(3)
  obtain T where T: "foldl js_add (Fin 0) (map gradeScore subs) = Fin T" "0 \<le> T"
    "T \<le> 100 * of_nat (length subs)" by auto
  have n: "(0::rat) < of_nat (length subs)" using assms(2) by simp
  have "0 \<le> T / of_nat (length subs)" using T(2) by simp
  moreover have "T / of_nat (length subs) \<le> 100" using T(3) n by (simp add: pos_divide_le_eq)
  ultimately obtain w where w: "fl (T / of_nat (length subs)) = Fin w" "0 \<le> w" "w \<le> 100"
    using fl_range[OF _ _ isDouble_100] by blast
  have "js_div (Fin T) (ofLength (length subs)) = Fin w"
    using n w(1) by (simp add: ofLength_def)
  then show ?thesis unfolding T(1) using Math_round_percent[OF w(2,3)] by simp
qed

lemma completion_nonneg:
  assumes "0 < m"
  shows "Math_round (js_mul (js_div (ofLength n) (ofLength m)) (Fin 100)) \<noteq> NaN \<and>
         js_le (Fin 0) (Math_round (js_mul (js_div (ofLength n) (ofLength m)) (Fin 100)))"
proof -
  have "(0::rat) \<le> of_nat n" "(0::rat) < of_nat m" using assms by simp_all
  from scaled_ratio_nonneg[OF this]
  consider "js_mul (js_div (Fin (of_nat n)) (Fin (of_nat m))) (Fin 100) = PInf"
    | w where "js_mul (js_div (Fin (of_nat n)) (Fin (of_nat m))) (Fin 100) = Fin w" "0 \<le> w"
    by blast
  then show ?thesis
  proof cases
    case 1
    show ?thesis unfolding ofLength_def 1 by (simp add: Math_round_def)
  next
    case 2
    have "0 \<le> \<lfloor>w + 1 / 2\<rfloor>" using 2(2) by (simp add: zero_le_floor)
    then show ?thesis unfolding ofLength_def 2(1) by (simp add: Math_round_def)
  qed
qed

lemma completion_percent:
  assumes "0 < m" "n \<le> m"
  shows "isPercent (Math_round (js_mul (js_div (ofLength n) (ofLength m)) (Fin 100)))"
proof -
  have "(0::rat) \<le> of_nat n" "(of_nat n :: rat) \<le> of_nat m" "(0::rat) < of_nat m"
    using assms by simp_all
  from scaled_ratio[OF this]
  obtain w where w: "js_mul (js_div (Fin (of_nat n)) (Fin (of_nat m))) (Fin 100) = Fin w"
    "0 \<le> w" "w \<le> 100" by blast
  show ?thesis unfolding ofLength_def w(1) by (rule Math_round_percent[OF w(2,3)])
qed

text \<open>
  Claim C9, as amended. Without graded submissions the average score is 0 and every
  accuracy is 0; with an empty roster the completion rate is 0. Every accuracy is an
  integer between 0 and 100. The average score is an integer between 0 and 100 when
  every graded submission has a grade as the auto-grader writes it (\<open>gradeInRange\<close>),
  the graded submissions being fewer than \<open>2 ^ 32\<close>, the bound of the length of an
  array. The completion rate is never NaN and never negative, and it is an integer
  between 0 and 100 when the assignment has at most as many submissions as the roster
  has students. \<open>isPercent\<close> holds of no NaN.
\<close>

theorem analytics_bounds:
  assumes "analyticsData (Some aid) assignments submissions students = Some an"
  shows "(an_gradedSubmissions an = [] \<longrightarrow>
            an_averageScore an = Fin 0 \<and>
            (\<forall>st\<in>set (an_questionStats an). st_accuracy st = Fin 0)) \<and>
         (students = [] \<longrightarrow> an_completionRate an = Fin 0) \<and>
         (\<forall>st\<in>set (an_questionStats an). isPercent (st_accuracy st)) \<and>
         ((\<forall>s\<in>set (an_gradedSubmissions an). gradeInRange s) \<and>
          length (an_gradedSubmissions an) < 2 ^ 32 \<longrightarrow>
            isPercent (an_averageScore an)) \<and>
         an_completionRate an \<noteq> NaN \<and> js_le (Fin 0) (an_completionRate an) \<and>
         (length (an_assignmentSubmissions an) \<le> length students \<longrightarrow>
            isPercent (an_completionRate an))"
proof -
  note a = analyticsData_Some[OF assms]
  let ?stats = "map (questionStat (an_gradedSubmissions an)) (an_allQuestions an)"
  have p: "\<forall>st\<in>set ?stats. isPercent (st_accuracy st)"
    by (simp add: questionStat_percent)
  have "mset (an_questionStats an) = mset ?stats"
    unfolding a(5) by (rule js_sort_props(1)[OF p])
  then have set: "set (an_questionStats an) = set ?stats"
    by (rule mset_eq_setD)
  have zero: "an_gradedSubmissions an = [] \<Longrightarrow>
      an_averageScore an = Fin 0 \<and> (\<forall>st\<in>set (an_questionStats an). st_accuracy st = Fin 0)"
    unfolding set unfolding a(6) by (auto simp: questionStat_no_graded)
  have roster: "students = [] \<Longrightarrow> an_completionRate an = Fin 0"
    unfolding a(7) by simp
  have acc: "\<forall>st\<in>set (an_questionStats an). isPercent (st_accuracy st)"
    unfolding set by (rule p)
  have avg: "isPercent (an_averageScore an)"
    if h: "\<forall>s\<in>set (an_gradedSubmissions an). gradeInRange s"
      and l: "length (an_gradedSubmissions an) < 2 ^ 32"
  proof (cases "an_gradedSubmissions an = []")
    case True
    then show ?thesis unfolding a(6) by (simp add: isPercent_def)
  next
    case False
    from average_percent[OF h False l] False
    show ?thesis unfolding a(6) by simp
  qed
  have cr0: "an_completionRate an \<noteq> NaN \<and> js_le (Fin 0) (an_completionRate an)"
  proof (cases "students = []")
    case True
    then show ?thesis unfolding a(7) by simp
  next
    case False
    then have "0 < length students" by simp
    from completion_nonneg[OF this] False show ?thesis unfolding a(7) by simp
  qed
  have cr: "isPercent (an_completionRate an)"
    if h: "length (an_assignmentSubmissions an) \<le> length students"
  proof (cases "students = []")
    case True
    then show ?thesis unfolding a(7) by (simp add: isPercent_def)
  next
    case False
    then have "0 < length students" by simp
    from completion_percent[OF this h] False
    show ?thesis unfolding a(7) by simp
  qed
  show ?thesis using zero roster acc avg cr0 cr by blast
qed


theorem analytics_bounds_witness:
  "list_all gradeInRange (filter (isGradedFor ''a1'') exSubmissions) \<and>
   length (filter (isGradedFor ''a1'') exSubmissions) < 2 ^ 32 \<and>
   length (filter (\<lambda>s. s_assignmentId s = ''a1'') exSubmissions)
     \<le> length [exStudent, exStudent, exStudent, exStudent] \<and>
   map_option an_averageScore
     (analyticsData (Some ''a1'') [exReading] exSubmissions [exStudent, exStudent, exStudent, exStudent])
     = Some (Fin 33) \<and>
   map_option an_completionRate
     (analyticsData (Some ''a1'') [exReading] exSubmissions [exStudent, exStudent, exStudent, exStudent])
     = Some (Fin 75) \<and>
   isPercent (Fin 33) \<and> isPercent (Fin 75) \<and>
   map_option an_averageScore (analyticsData (Some ''a1'') [exReading] [] []) = Some (Fin 0) \<and>
   map_option an_completionRate (analyticsData (Some ''a1'') [exReading] [] []) = Some (Fin 0) \<and>
   map_option (map st_accuracy \<circ> an_questionStats)
     (analyticsData (Some ''a1'') [exReading] [] []) = Some [Fin 0, Fin 0, Fin 0]"
proof -
  let ?roster = "[exStudent, exStudent, exStudent, exStudent]"
  obtain an where an: "analyticsData (Some ''a1'') [exReading] exSubmissions ?roster = Some an"
    by (simp add: analyticsData_def Let_def exReading_def)
  obtain an0 where an0: "analyticsData (Some ''a1'') [exReading] [] [] = Some an0"
    by (simp add: analyticsData_def Let_def exReading_def)
  note a = analyticsData_Some[OF an]
  have h1: "list_all gradeInRange (filter (isGradedFor ''a1'') exSubmissions)" by code_simp
  have "length (filter (isGradedFor ''a1'') exSubmissions) = 3" by code_simp
  then have h2: "length (filter (isGradedFor ''a1'') exSubmissions) < 2 ^ 32" by simp
  have h3: "length (filter (\<lambda>s. s_assignmentId s = ''a1'') exSubmissions) \<le> length ?roster"
    by code_simp
  have v: "map_option an_averageScore (analyticsData (Some ''a1'') [exReading] exSubmissions ?roster)
     = Some (Fin 33)"
    "map_option an_completionRate (analyticsData (Some ''a1'') [exReading] exSubmissions ?roster)
     = Some (Fin 75)"
    "map_option an_averageScore (analyticsData (Some ''a1'') [exReading] [] []) = Some (Fin 0)"
    "map_option an_completionRate (analyticsData (Some ''a1'') [exReading] [] []) = Some (Fin 0)"
    "map_option (map st_accuracy \<circ> an_questionStats)
       (analyticsData (Some ''a1'') [exReading] [] []) = Some [Fin 0, Fin 0, Fin 0]"
    by code_simp+
  have "isPercent (an_averageScore an) \<and> isPercent (an_completionRate an)"
    using analytics_bounds[OF an] h1 h2 h3 unfolding a(2) a(3) by (simp add: list_all_iff)
  then have "isPercent (Fin 33) \<and> isPercent (Fin 75)"
    using v(1,2) unfolding an by simp
  then show ?thesis
    using analytics_bounds[OF an0] h1 h2 h3 v by simp
qed

text \<open>
  Claim C9 as stated fails on a roster smaller than the set of submissions, as after
  students who submitted were removed from the class: three submissions over one
  student give a completion rate of 300. It fails for the average score on grades that
  a teacher has entered by hand for a graded submission: the grade \<open>3/2\<close> gives the
  average 150, and the grade \<open>Infinity/Infinity\<close> passes the guards of the parser and
  gives NaN.
\<close>

theorem analytics_bounds_counterexample:
  "length [exStudent] = 1 \<and>
   map_option (length \<circ> an_assignmentSubmissions)
     (analyticsData (Some ''a1'') [exReading] exSubmissions [exStudent]) = Some 3 \<and>
   map_option an_completionRate
     (analyticsData (Some ''a1'') [exReading] exSubmissions [exStudent]) = Some (Fin 300) \<and>
   \<not> js_le (Fin 300) (Fin 100) \<and>
   map_option an_averageScore
     (analyticsData (Some ''a1'') [exReading] [exSubmission ''s1'' ''u1'' exAnswers ''3/2'']
        [exStudent]) = Some (Fin 150) \<and>
   \<not> js_le (Fin 150) (Fin 100) \<and>
   map_option an_averageScore
     (analyticsData (Some ''a1'') [exReading]
        [exSubmission ''s1'' ''u1'' exAnswers ''Infinity/Infinity''] [exStudent]) = Some NaN"
  by code_simp


end
